theory Spec2Isabelle
  imports Complex_Main "HOL-Library.List_Lexorder" "HOL-Library.Char_ord"
begin

section \<open>Strings\<close>

text \<open>
  JavaScript strings are modelled as \<^typ>\<open>string\<close>, read as sequences of code units
  below 128 (ASCII text). On such text \<^verbatim>\<open>String.prototype.toLowerCase\<close> maps
  \<^verbatim>\<open>A-Z\<close> to \<^verbatim>\<open>a-z\<close> and leaves every other character alone,
  \<^verbatim>\<open>normalize('NFD')\<close> is the identity, and no character lies in
  \<^verbatim>\<open>U+0300-U+036F\<close>. Characters from 128 on are carried through unchanged.
\<close>

definition upperAZ :: string where
  "upperAZ = ''ABCDEFGHIJKLMNOPQRSTUVWXYZ''"

definition lowerAZ :: string where
  "lowerAZ = ''abcdefghijklmnopqrstuvwxyz''"

definition digits09 :: string where
  "digits09 = ''0123456789''"

definition charToLower :: "char \<Rightarrow> char" where
  "charToLower c = (case map_of (zip upperAZ lowerAZ) c of Some l \<Rightarrow> l | None \<Rightarrow> c)"

definition toLowerCase :: "string \<Rightarrow> string" where
  "toLowerCase s = map charToLower s"

text \<open>The class \<^verbatim>\<open>\s\<close> on ASCII text: tab, line feed, vertical tab, form feed,
  carriage return, space.\<close>

definition isSpace :: "char \<Rightarrow> bool" where
  "isSpace c = (c \<in> set [CHR 0x09, CHR 0x0A, CHR 0x0B, CHR 0x0C, CHR 0x0D, CHR 0x20])"

section \<open>Gazetteer store (background/database.js)\<close>

text \<open>
  A city object as written by \<^verbatim>\<open>parseGeoNamesData\<close> and
  \<^verbatim>\<open>scripts/prepare-data.js\<close>.
\<close>

record city =
  geonameId :: int
  name :: string
  ascii :: string
  alternates :: "string list"
  lat :: real
  lng :: real
  country :: string
  admin1 :: string
  pop :: int
  fclass :: string
  fcode :: string

text \<open>The entry of the \<^verbatim>\<open>metadata\<close> store (key path \<^verbatim>\<open>key\<close>) and of the
  \<^verbatim>\<open>downloadCache\<close> store (key path \<^verbatim>\<open>countryCode\<close>).\<close>

record metaEntry =
  key :: string
  timestamp :: int
  count :: nat

record cacheEntry =
  countryCode :: string
  downloadDate :: string
  cityCount :: nat

text \<open>
  An IndexedDB object store is a list of records in ascending order of the primary key,
  one record per key. \<^verbatim>\<open>put\<close> replaces the record with the same key or inserts
  a new one; \<^verbatim>\<open>add\<close> fails on a key that is present; \<^verbatim>\<open>index.getAll(k)\<close>
  returns the records whose indexed field equals \<^verbatim>\<open>k\<close>, in primary key order;
  \<^verbatim>\<open>index.count(k)\<close> is their number.
\<close>

fun store_put :: "('r \<Rightarrow> 'k::linorder) \<Rightarrow> 'r \<Rightarrow> 'r list \<Rightarrow> 'r list" where
  "store_put kp r [] = [r]"
| "store_put kp r (x # xs) =
     (if kp r = kp x then r # xs
      else if kp r < kp x then r # x # xs
      else x # store_put kp r xs)"

definition store_get :: "('r \<Rightarrow> 'k) \<Rightarrow> 'k \<Rightarrow> 'r list \<Rightarrow> 'r option" where
  "store_get kp k st = find (\<lambda>r. kp r = k) st"

fun store_add_all :: "('r \<Rightarrow> 'k::linorder) \<Rightarrow> 'r list \<Rightarrow> 'r list \<Rightarrow> 'r list option" where
  "store_add_all kp [] st = Some st"
| "store_add_all kp (r # rs) st =
     (if store_get kp (kp r) st \<noteq> None then None
      else store_add_all kp rs (store_put kp r st))"

definition index_getAll :: "('r \<Rightarrow> 'k) \<Rightarrow> 'k \<Rightarrow> 'r list \<Rightarrow> 'r list" where
  "index_getAll ix k st = filter (\<lambda>r. ix r = k) st"

definition index_count :: "('r \<Rightarrow> 'k) \<Rightarrow> 'k \<Rightarrow> 'r list \<Rightarrow> nat" where
  "index_count ix k st = length (index_getAll ix k st)"

text \<open>
  The class \<^verbatim>\<open>GeoNamesDB\<close>: the flag \<^verbatim>\<open>isReady\<close> and the four object
  stores of the database.
\<close>

record GeoNamesDB =
  isReady :: bool
  cities :: "city list"
  metadata :: "metaEntry list"
  countryData :: "city list"
  downloadCache :: "cacheEntry list"

text \<open>
  Every method is \<^verbatim>\<open>async\<close>: its promise is rejected (\<open>Inl\<close>) or fulfilled
  (\<open>Inr\<close>). \<open>DatabaseNotInitialized\<close> is
  \<^verbatim>\<open>new Error('Database not initialized')\<close>; \<open>ConstraintError\<close> is the
  transaction error of \<^verbatim>\<open>add\<close> on a key that is present; \<open>OpenFailed\<close> is the
  error of \<^verbatim>\<open>indexedDB.open\<close>.
\<close>

datatype dberror = DatabaseNotInitialized | ConstraintError | OpenFailed

text \<open>\<^verbatim>\<open>loadCities(cities)\<close>; \<open>now\<close> is the value of \<^verbatim>\<open>Date.now()\<close>.
  A failed transaction is rolled back, so the stores are then unchanged.\<close>

definition loadCities :: "int \<Rightarrow> GeoNamesDB \<Rightarrow> city list \<Rightarrow> dberror + GeoNamesDB" where
  "loadCities now db cs =
     (if \<not> isReady db then Inl DatabaseNotInitialized
      else case store_add_all geonameId cs [] of
             None \<Rightarrow> Inl ConstraintError
           | Some st \<Rightarrow>
               Inr (db\<lparr>cities := st,
                       metadata := store_put key
                         \<lparr>key = ''citiesLoaded'', timestamp = now, count = length cs\<rparr>
                         (metadata db)\<rparr>))"

definition isCitiesLoaded :: "GeoNamesDB \<Rightarrow> dberror + bool" where
  "isCitiesLoaded db =
     (if \<not> isReady db then Inr False
      else Inr (store_get key ''citiesLoaded'' (metadata db) \<noteq> None))"

definition getCitiesCount :: "GeoNamesDB \<Rightarrow> dberror + nat" where
  "getCitiesCount db = (if \<not> isReady db then Inr 0 else Inr (length (cities db)))"

definition searchByName :: "GeoNamesDB \<Rightarrow> string \<Rightarrow> dberror + city list" where
  "searchByName db nm =
     (if \<not> isReady db then Inl DatabaseNotInitialized
      else Inr (index_getAll ascii (toLowerCase nm) (cities db)))"

text \<open>\<^verbatim>\<open>loadCountryData(countryCode, cities)\<close>; \<open>now\<close> is
  \<^verbatim>\<open>new Date().toISOString()\<close>.\<close>

definition loadCountryData ::
  "string \<Rightarrow> GeoNamesDB \<Rightarrow> string \<Rightarrow> city list \<Rightarrow> dberror + GeoNamesDB" where
  "loadCountryData now db code cs =
     (if \<not> isReady db then Inl DatabaseNotInitialized
      else Inr (db\<lparr>countryData := fold (store_put geonameId) cs (countryData db),
                   downloadCache := store_put countryCode
                     \<lparr>countryCode = code, downloadDate = now, cityCount = length cs\<rparr>
                     (downloadCache db)\<rparr>))"

definition searchCountryData :: "GeoNamesDB \<Rightarrow> string \<Rightarrow> dberror + city list" where
  "searchCountryData db nm =
     (if \<not> isReady db then Inl DatabaseNotInitialized
      else Inr (index_getAll ascii (toLowerCase nm) (countryData db)))"

text \<open>The loop of \<^verbatim>\<open>searchAllSources\<close> over \<^verbatim>\<open>combined\<close>, with the set
  \<^verbatim>\<open>seen\<close> and the array \<^verbatim>\<open>deduped\<close> as its state.\<close>

fun dedupe_loop :: "city list \<Rightarrow> int set \<Rightarrow> city list \<Rightarrow> city list" where
  "dedupe_loop [] seen deduped = deduped"
| "dedupe_loop (c # combined) seen deduped =
     (if geonameId c \<notin> seen
      then dedupe_loop combined (insert (geonameId c) seen) (deduped @ [c])
      else dedupe_loop combined seen deduped)"

text \<open>\<^verbatim>\<open>Promise.all\<close> rejects with the first rejection of its members.\<close>

definition searchAllSources :: "GeoNamesDB \<Rightarrow> string \<Rightarrow> dberror + city list" where
  "searchAllSources db nm =
     (case searchByName db nm of
        Inl e \<Rightarrow> Inl e
      | Inr citiesResults \<Rightarrow>
          (case searchCountryData db nm of
             Inl e \<Rightarrow> Inl e
           | Inr countryResults \<Rightarrow>
               Inr (dedupe_loop (citiesResults @ countryResults) {} [])))"

definition isCountryDownloaded :: "GeoNamesDB \<Rightarrow> string \<Rightarrow> dberror + bool" where
  "isCountryDownloaded db code =
     (if \<not> isReady db then Inr False
      else case store_get countryCode code (downloadCache db) of
             None \<Rightarrow> Inr False
           | Some cacheEntry \<Rightarrow>
               (if index_count country code (countryData db) = 0 then Inr False
                else Inr True))"

definition getDownloadedCountries :: "GeoNamesDB \<Rightarrow> dberror + cacheEntry list" where
  "getDownloadedCountries db = (if \<not> isReady db then Inr [] else Inr (downloadCache db))"

definition getCountryDataCount :: "GeoNamesDB \<Rightarrow> dberror + nat" where
  "getCountryDataCount db = (if \<not> isReady db then Inr 0 else Inr (length (countryData db)))"


text \<open>\<^verbatim>\<open>init()\<close>: \<open>opened\<close> tells whether \<^verbatim>\<open>indexedDB.open\<close> succeeded;
  only then is \<^verbatim>\<open>isReady\<close> set.\<close>

definition init :: "bool \<Rightarrow> GeoNamesDB \<Rightarrow> dberror + GeoNamesDB" where
  "init opened db = (if opened then Inr (db\<lparr>isReady := True\<rparr>) else Inl OpenFailed)"

section \<open>Formatting helpers (utils/format.js, in src/utils/mapManager.js from line 266)\<close>

text \<open>\<^verbatim>\<open>COUNTRY_NAMES\<close> of utils/constants.js as the list of its entries, in the order
  of \<^verbatim>\<open>Object.entries\<close>. The literal writes the key \<^verbatim>\<open>'NZ'\<close> twice with the
  same value; the object holds it once.\<close>

definition COUNTRY_NAMES :: "(string \<times> string) list" where
  "COUNTRY_NAMES =
     [(''US'', ''United States''), (''GB'', ''United Kingdom''), (''FR'', ''France''),
      (''DE'', ''Germany''), (''IT'', ''Italy''), (''ES'', ''Spain''), (''CA'', ''Canada''),
      (''AU'', ''Australia''), (''NZ'', ''New Zealand''), (''JP'', ''Japan''),
      (''CN'', ''China''), (''IN'', ''India''), (''BR'', ''Brazil''), (''MX'', ''Mexico''),
      (''AR'', ''Argentina''), (''RU'', ''Russia''), (''NL'', ''Netherlands''),
      (''BE'', ''Belgium''), (''CH'', ''Switzerland''), (''AT'', ''Austria''),
      (''SE'', ''Sweden''), (''NO'', ''Norway''), (''DK'', ''Denmark''),
      (''FI'', ''Finland''), (''PL'', ''Poland''), (''CZ'', ''Czech Republic''),
      (''PT'', ''Portugal''), (''GR'', ''Greece''), (''TR'', ''Turkey''),
      (''IL'', ''Israel''), (''EG'', ''Egypt''), (''ZA'', ''South Africa''),
      (''KE'', ''Kenya''), (''NG'', ''Nigeria''), (''KR'', ''South Korea''),
      (''TH'', ''Thailand''), (''SG'', ''Singapore''), (''MY'', ''Malaysia''),
      (''ID'', ''Indonesia''), (''PH'', ''Philippines''), (''VN'', ''Vietnam''),
      (''NP'', ''Nepal''), (''BD'', ''Bangladesh''), (''PK'', ''Pakistan''),
      (''AF'', ''Afghanistan''), (''IQ'', ''Iraq''), (''IR'', ''Iran''),
      (''SA'', ''Saudi Arabia''), (''AE'', ''United Arab Emirates''), (''IE'', ''Ireland''),
      (''IS'', ''Iceland''), (''CL'', ''Chile''), (''PE'', ''Peru''), (''CO'', ''Colombia''),
      (''VE'', ''Venezuela''), (''CU'', ''Cuba''), (''UY'', ''Uruguay''),
      (''CR'', ''Costa Rica''), (''PA'', ''Panama''), (''HN'', ''Honduras''),
      (''GT'', ''Guatemala''), (''EC'', ''Ecuador''), (''BO'', ''Bolivia''),
      (''PY'', ''Paraguay''), (''AD'', ''Andorra''), (''MC'', ''Monaco''),
      (''LI'', ''Liechtenstein''), (''LU'', ''Luxembourg''), (''MT'', ''Malta''),
      (''SM'', ''San Marino''), (''VA'', ''Vatican City'')]"

text \<open>\<^verbatim>\<open>COUNTRY_NAMES[countryCode] || countryCode\<close>, for country codes that are not
  names of properties inherited from \<^verbatim>\<open>Object.prototype\<close>.\<close>

definition getCountryName :: "string \<Rightarrow> string" where
  "getCountryName code =
     (case map_of COUNTRY_NAMES code of
        None \<Rightarrow> code
      | Some n \<Rightarrow> if n = [] then code else n)"

definition trim :: "string \<Rightarrow> string" where
  "trim s = rev (dropWhile isSpace (rev (dropWhile isSpace s)))"

text \<open>\<^verbatim>\<open>replace(/\s+/g, ' ')\<close>: every maximal run of white space becomes one space.\<close>

function collapseWhitespace :: "string \<Rightarrow> string" where
  "collapseWhitespace [] = []"
| "collapseWhitespace (c # cs) =
     (if isSpace c then CHR '' '' # collapseWhitespace (dropWhile isSpace cs)
      else c # collapseWhitespace cs)"
  by pat_completeness auto
termination
  by (relation "measure length") (auto simp: length_dropWhile_le less_Suc_eq_le)

text \<open>\<^verbatim>\<open>normalize('NFD')\<close> and the removal of \<^verbatim>\<open>U+0300-U+036F\<close>, on ASCII text.\<close>

definition normalizeNFD :: "string \<Rightarrow> string" where
  "normalizeNFD s = s"

definition isCombiningMark :: "char \<Rightarrow> bool" where
  "isCombiningMark c = (0x300 \<le> (of_char c :: nat) \<and> (of_char c :: nat) \<le> 0x36F)"

definition normalizeText :: "string \<Rightarrow> string" where
  "normalizeText text =
     trim (collapseWhitespace (filter (\<lambda>c. \<not> isCombiningMark c) (normalizeNFD (toLowerCase text))))"

definition STOP_WORDS :: "string list" where
  "STOP_WORDS =
     [''the'', ''and'', ''or'', ''but'', ''in'', ''on'', ''at'', ''to'', ''for'', ''of'', ''with'',
      ''by'', ''from'', ''up'', ''about'', ''into'', ''through'', ''during'', ''before'', ''after'',
      ''above'', ''below'', ''between'', ''under'', ''again'', ''further'', ''then'', ''once'',
      ''january'', ''february'', ''march'', ''april'', ''may'', ''june'', ''july'', ''august'',
      ''september'', ''october'', ''november'', ''december'',
      ''monday'', ''tuesday'', ''wednesday'', ''thursday'', ''friday'', ''saturday'', ''sunday'',
      ''mr'', ''mrs'', ''ms'', ''dr'', ''prof'', ''sir'', ''lord'', ''lady'',
      ''street'', ''avenue'', ''road'', ''lane'', ''drive'', ''boulevard'']"

definition isStopWord :: "string \<Rightarrow> bool" where
  "isStopWord word = (toLowerCase word \<in> set STOP_WORDS)"

text \<open>\<^verbatim>\<open>String.prototype.substring(a, b)\<close>: both arguments are clamped to the
  length and swapped when out of order.\<close>

definition substring :: "string \<Rightarrow> nat \<Rightarrow> nat \<Rightarrow> string" where
  "substring s a b =
     (let a' = min a (length s); b' = min b (length s)
      in take (max a' b' - min a' b') (drop (min a' b') s))"

text \<open>\<^verbatim>\<open>getContext(text, index)\<close> with the default window of 50;
  \<^verbatim>\<open>Math.max(0, index - 50)\<close> is the truncating subtraction.\<close>

definition getContext :: "string \<Rightarrow> nat \<Rightarrow> string" where
  "getContext text i = substring text (i - 50) (min (length text) (i + 50))"

text \<open>\<^verbatim>\<open>deduplicateBy(array, key)\<close>: the filter callback with the set
  \<^verbatim>\<open>seen\<close> as state.\<close>

fun deduplicateBy_filter :: "('a \<Rightarrow> 'k) \<Rightarrow> 'k set \<Rightarrow> 'a list \<Rightarrow> 'a list" where
  "deduplicateBy_filter keyOf seen [] = []"
| "deduplicateBy_filter keyOf seen (item # array) =
     (if keyOf item \<in> seen then deduplicateBy_filter keyOf seen array
      else item # deduplicateBy_filter keyOf (insert (keyOf item) seen) array)"

definition deduplicateBy :: "'a list \<Rightarrow> ('a \<Rightarrow> 'k) \<Rightarrow> 'a list" where
  "deduplicateBy array keyOf = deduplicateBy_filter keyOf {} array"

section \<open>Regular expressions\<close>

text \<open>
  The two patterns of the geocoder use character classes, \<^verbatim>\<open>\b\<close>, sequences,
  capturing groups and greedy quantifiers. A match state is the end index and the
  captures recorded so far; a matcher returns the states it can reach from a state, in
  the order in which backtracking tries them, so the head of the list is the match that
  \<^verbatim>\<open>exec\<close> reports.
\<close>

definition isUpper :: "char \<Rightarrow> bool" where
  "isUpper c = (c \<in> set upperAZ)"

definition isLower :: "char \<Rightarrow> bool" where
  "isLower c = (c \<in> set lowerAZ)"

definition isAlpha :: "char \<Rightarrow> bool" where
  "isAlpha c = (c \<in> set lowerAZ \<or> c \<in> set upperAZ)"

definition isWordChar :: "char \<Rightarrow> bool" where
  "isWordChar c = (c \<in> set upperAZ \<or> c \<in> set lowerAZ \<or> c \<in> set digits09 \<or> c = CHR ''_'')"

type_synonym mstate = "nat \<times> (nat \<times> nat) list"

datatype regex =
    Class "char \<Rightarrow> bool"
  | WordBoundary
  | Seq regex regex
  | Group regex
  | Repeat regex nat "nat option"

definition wordCharAt :: "string \<Rightarrow> int \<Rightarrow> bool" where
  "wordCharAt s e = (if e < 0 \<or> e \<ge> int (length s) then False else isWordChar (s ! nat e))"

definition isWordBoundary :: "string \<Rightarrow> nat \<Rightarrow> bool" where
  "isWordBoundary s e = (wordCharAt s (int e - 1) \<noteq> wordCharAt s (int e))"

text \<open>
  The greedy quantifier \<^verbatim>\<open>{mn,mx}\<close> (\<open>None\<close> is no upper bound) over the matcher
  \<open>m\<close>, from state \<open>x\<close>: first every way of matching once more and repeating from
  there, then, when no further repetition is required, \<open>x\<close> itself;
  \<open>repeatEach\<close> runs over the states \<open>m x\<close> returned. As in ECMAScript's
  RepeatMatcher, once the minimum is reached a repetition that consumes nothing is
  rejected: a matcher never moves backwards and never leaves the text of length
  \<open>len\<close> (lemmas \<open>rmatch_mono\<close> and \<open>rmatch_bounded\<close> below), so the test that
  the end index has grown within the text is the test that it has changed.
\<close>

function repeatMatcher ::
  "(mstate \<Rightarrow> mstate list) \<Rightarrow> nat \<Rightarrow> nat \<Rightarrow> nat option \<Rightarrow> mstate \<Rightarrow> mstate list"
  and repeatEach ::
  "(mstate \<Rightarrow> mstate list) \<Rightarrow> nat \<Rightarrow> nat \<Rightarrow> nat option \<Rightarrow> mstate \<Rightarrow> mstate list \<Rightarrow> mstate list"
  where
  "repeatMatcher m len mn mx x =
     (if mx = Some 0 then [x]
      else repeatEach m len mn mx x (m x) @ (if mn = 0 then [x] else []))"
| "repeatEach m len mn mx x [] = []"
| "repeatEach m len mn mx x (y # ys) =
     (if mn = 0 \<and> \<not> (fst x < fst y \<and> fst y \<le> len) then []
      else repeatMatcher m len (mn - 1) (map_option (\<lambda>k. k - 1) mx) y)
     @ repeatEach m len mn mx x ys"
  by pat_completeness auto
termination
  apply (relation
      "(\<lambda>a. case a of Inl (m, len, mn, mx, x) \<Rightarrow> (case mx of Some k \<Rightarrow> k | None \<Rightarrow> 0)
                     | Inr (m, len, mn, mx, x, ys) \<Rightarrow> (case mx of Some k \<Rightarrow> k | None \<Rightarrow> 0))
       <*mlex*>
       (\<lambda>a. case a of Inl (m, len, mn, mx, x) \<Rightarrow> mn
                     | Inr (m, len, mn, mx, x, ys) \<Rightarrow> mn)
       <*mlex*>
       (\<lambda>a. case a of Inl (m, len, mn, mx, x) \<Rightarrow> len - fst x
                     | Inr (m, len, mn, mx, x, ys) \<Rightarrow> len - fst x)
       <*mlex*>
       (\<lambda>a. case a of Inl (m, len, mn, mx, x) \<Rightarrow> Suc 0
                     | Inr (m, len, mn, mx, x, ys) \<Rightarrow> 0)
       <*mlex*>
       (\<lambda>a. case a of Inl (m, len, mn, mx, x) \<Rightarrow> 0
                     | Inr (m, len, mn, mx, x, ys) \<Rightarrow> length ys)
       <*mlex*> {}")
     apply (auto simp: wf_mlex mlex_prod_def split: option.splits)
  done

declare repeatMatcher.simps [simp del]

primrec rmatch :: "regex \<Rightarrow> string \<Rightarrow> mstate \<Rightarrow> mstate list" where
  "rmatch (Class p) s x =
     (if fst x < length s \<and> p (s ! fst x) then [(Suc (fst x), snd x)] else [])"
| "rmatch WordBoundary s x = (if isWordBoundary s (fst x) then [x] else [])"
| "rmatch (Seq a b) s x = concat (map (rmatch b s) (rmatch a s x))"
| "rmatch (Group a) s x = map (\<lambda>y. (fst y, snd y @ [(fst x, fst y)])) (rmatch a s x)"
| "rmatch (Repeat a mn mx) s x = repeatMatcher (rmatch a s) (length s) mn mx x"

text \<open>
  \<^verbatim>\<open>RegExp.prototype.exec\<close> of a global pattern: the start indices from
  \<^verbatim>\<open>lastIndex\<close> up to the length of the text are tried in turn. The result is the
  index of the match and its final state, whose end index is the new
  \<^verbatim>\<open>lastIndex\<close>.
\<close>

primrec scanFrom :: "regex \<Rightarrow> string \<Rightarrow> nat \<Rightarrow> nat \<Rightarrow> (nat \<times> mstate) option" where
  "scanFrom r s 0 i = None"
| "scanFrom r s (Suc n) i =
     (case rmatch r s (i, []) of
        y # ys \<Rightarrow> Some (i, y)
      | [] \<Rightarrow> scanFrom r s n (Suc i))"

definition regexExec :: "regex \<Rightarrow> string \<Rightarrow> nat \<Rightarrow> (nat \<times> mstate) option" where
  "regexExec r s lastIndex =
     (if lastIndex > length s then None
      else scanFrom r s (Suc (length s - lastIndex)) lastIndex)"

text \<open>\<^verbatim>\<open>match[n]\<close> for \<open>n \<ge> 1\<close>.\<close>

definition capture :: "string \<Rightarrow> mstate \<Rightarrow> nat \<Rightarrow> string" where
  "capture s y n = (case snd y ! (n - 1) of (a, b) \<Rightarrow> substring s a b)"

text \<open>A pattern that starts with a character class (after any \<^verbatim>\<open>\b\<close> and group
  opening) consumes at least one character.\<close>

primrec advances :: "regex \<Rightarrow> bool" where
  "advances (Class p) = True"
| "advances WordBoundary = False"
| "advances (Seq a b) = (advances a \<or> advances b)"
| "advances (Group a) = advances a"
| "advances (Repeat a mn mx) = False"

text \<open>A state lies behind a lower-case letter of the text.\<close>

definition endsLower :: "string \<Rightarrow> mstate \<Rightarrow> bool" where
  "endsLower s y = (0 < fst y \<and> fst y \<le> length s \<and> isLower (s ! (fst y - 1)))"

lemma repeat_mono_aux:
  "(\<forall>x y. y \<in> set (m x) \<longrightarrow> fst x \<le> fst y) \<Longrightarrow>
     \<forall>y \<in> set (repeatMatcher m len mn mx x). fst x \<le> fst y"
  "(\<forall>x y. y \<in> set (m x) \<longrightarrow> fst x \<le> fst y) \<Longrightarrow> (\<forall>y' \<in> set ys. fst x \<le> fst y') \<Longrightarrow>
     \<forall>y \<in> set (repeatEach m len mn mx x ys). fst x \<le> fst y"
proof (induction m len mn mx x and m len mn mx x ys rule: repeatMatcher_repeatEach.induct)
  case (1 m len mn mx x)
  show ?case
  proof (cases "mx = Some 0")
    case True
    then show ?thesis by (simp add: repeatMatcher.simps)
  next
    case False
    from "1.prems" have "\<forall>y' \<in> set (m x). fst x \<le> fst y'" by blast
    from "1.IH"[OF False "1.prems" this] False show ?thesis
      by (auto simp: repeatMatcher.simps[of m len mn mx x])
  qed
next
  case (2 m len mn mx x)
  show ?case by simp
next
  case (3 m len mn mx x y' ys)
  from "3.prems"(2) have xy: "fst x \<le> fst y'" and ys: "\<forall>y' \<in> set ys. fst x \<le> fst y'"
    by simp_all
  have tl: "\<forall>y \<in> set (repeatEach m len mn mx x ys). fst x \<le> fst y"
    using "3.IH"(2)[OF "3.prems"(1) ys] .
  show ?case
  proof (cases "mn = 0 \<and> \<not> (fst x < fst y' \<and> fst y' \<le> len)")
    case True
    with tl show ?thesis by simp
  next
    case False
    from "3.IH"(1)[OF False "3.prems"(1)] xy
    have "\<forall>y \<in> set (repeatMatcher m len (mn - 1) (map_option (\<lambda>k. k - 1) mx) y'). fst x \<le> fst y"
      by auto
    with tl False show ?thesis by auto
  qed
qed

lemma repeat_mono:
  assumes "\<And>x y. y \<in> set (m x) \<Longrightarrow> fst x \<le> fst y"
    and "y \<in> set (repeatMatcher m len mn mx x)"
  shows "fst x \<le> fst y"
  using repeat_mono_aux(1)[of m len mn mx x] assms by blast

lemma rmatch_mono: "y \<in> set (rmatch r s x) \<Longrightarrow> fst x \<le> fst y"
proof (induction r arbitrary: x y)
  case (Class p)
  then show ?case by (auto split: if_splits)
next
  case WordBoundary
  then show ?case by (auto split: if_splits)
next
  case (Seq a b)
  then obtain z where "z \<in> set (rmatch a s x)" "y \<in> set (rmatch b s z)" by auto
  then show ?case using Seq.IH(1)[of z x] Seq.IH(2)[of y z] by simp
next
  case (Group a)
  then obtain z where "z \<in> set (rmatch a s x)" "fst y = fst z" by auto
  then show ?case using Group.IH[of z x] by simp
next
  case (Repeat a mn mx)
  then show ?case using repeat_mono[of "rmatch a s" y "length s" mn mx x] by auto
qed

lemma repeat_bounded_aux:
  "(\<forall>x y. fst x \<le> len \<longrightarrow> y \<in> set (m x) \<longrightarrow> fst y \<le> len) \<Longrightarrow> fst x \<le> len \<Longrightarrow>
     \<forall>y \<in> set (repeatMatcher m len mn mx x). fst y \<le> len"
  "(\<forall>x y. fst x \<le> len \<longrightarrow> y \<in> set (m x) \<longrightarrow> fst y \<le> len) \<Longrightarrow>
     (\<forall>y' \<in> set ys. fst y' \<le> len) \<Longrightarrow>
     \<forall>y \<in> set (repeatEach m len mn mx x ys). fst y \<le> len"
proof (induction m len mn mx x and m len mn mx x ys rule: repeatMatcher_repeatEach.induct)
  case (1 m len mn mx x)
  show ?case
  proof (cases "mx = Some 0")
    case True
    with "1.prems"(2) show ?thesis by (simp add: repeatMatcher.simps)
  next
    case False
    from "1.prems" have "\<forall>y' \<in> set (m x). fst y' \<le> len" by blast
    from "1.IH"[OF False "1.prems"(1) this] False "1.prems"(2) show ?thesis
      by (auto simp: repeatMatcher.simps[of m len mn mx x])
  qed
next
  case (2 m len mn mx x)
  show ?case by simp
next
  case (3 m len mn mx x y' ys)
  from "3.prems"(2) have y: "fst y' \<le> len" and ys: "\<forall>y' \<in> set ys. fst y' \<le> len"
    by simp_all
  have tl: "\<forall>y \<in> set (repeatEach m len mn mx x ys). fst y \<le> len"
    using "3.IH"(2)[OF "3.prems"(1) ys] .
  show ?case
  proof (cases "mn = 0 \<and> \<not> (fst x < fst y' \<and> fst y' \<le> len)")
    case True
    with tl show ?thesis by simp
  next
    case False
    from "3.IH"(1)[OF False "3.prems"(1) y]
    have "\<forall>y \<in> set (repeatMatcher m len (mn - 1) (map_option (\<lambda>k. k - 1) mx) y'). fst y \<le> len" .
    with tl False show ?thesis by auto
  qed
qed

lemma rmatch_bounded: "fst x \<le> length s \<Longrightarrow> y \<in> set (rmatch r s x) \<Longrightarrow> fst y \<le> length s"
proof (induction r arbitrary: x y)
  case (Class p)
  show ?case
  proof (cases "fst x < length s \<and> p (s ! fst x)")
    case True
    with Class show ?thesis by auto
  next
    case False
    with Class show ?thesis by auto
  qed
next
  case WordBoundary
  show ?case
  proof (cases "isWordBoundary s (fst x)")
    case True
    with WordBoundary show ?thesis by simp
  next
    case False
    with WordBoundary show ?thesis by simp
  qed
next
  case (Seq a b)
  from Seq.prems(2) obtain z where z: "z \<in> set (rmatch a s x)" "y \<in> set (rmatch b s z)"
    by auto
  from Seq.IH(1)[OF Seq.prems(1) z(1)] have "fst z \<le> length s" .
  from Seq.IH(2)[OF this z(2)] show ?case .
next
  case (Group a)
  from Group.prems(2) obtain z where "z \<in> set (rmatch a s x)" "fst y = fst z" by auto
  with Group.IH[OF Group.prems(1), of z] show ?case by simp
next
  case (Repeat a mn mx)
  have "\<forall>x y. fst x \<le> length s \<longrightarrow> y \<in> set (rmatch a s x) \<longrightarrow> fst y \<le> length s"
    using Repeat.IH by blast
  from repeat_bounded_aux(1)[OF this Repeat.prems(1), of mn mx] Repeat.prems(2)
  show ?case by simp
qed

lemma rmatch_advances: "advances r \<Longrightarrow> y \<in> set (rmatch r s x) \<Longrightarrow> fst x < fst y"
proof (induction r arbitrary: x y)
  case (Class p)
  then show ?case by (auto split: if_splits)
next
  case WordBoundary
  then show ?case by simp
next
  case (Seq a b)
  from Seq.prems(2) obtain z where z: "z \<in> set (rmatch a s x)" "y \<in> set (rmatch b s z)"
    by auto
  from Seq.prems(1) show ?case
  proof (simp, elim disjE)
    assume "advances a"
    then have "fst x < fst z" using Seq.IH(1) z(1) by blast
    with rmatch_mono[OF z(2)] show ?thesis by simp
  next
    assume "advances b"
    then have "fst z < fst y" using Seq.IH(2) z(2) by blast
    with rmatch_mono[OF z(1)] show ?thesis by simp
  qed
next
  case (Group a)
  then obtain z where "z \<in> set (rmatch a s x)" "fst y = fst z" by auto
  then show ?case using Group.IH[of z x] Group.prems(1) by simp
next
  case (Repeat a mn mx)
  then show ?case by simp
qed

lemma scanFrom_Some:
  "scanFrom r s n i = Some (j, y) \<Longrightarrow> i \<le> j \<and> j < i + n \<and> y \<in> set (rmatch r s (j, []))"
proof (induction n arbitrary: i)
  case 0
  then show ?case by simp
next
  case (Suc n)
  show ?case
  proof (cases "rmatch r s (i, [])")
    case Nil
    with Suc.prems have "scanFrom r s n (Suc i) = Some (j, y)" by simp
    from Suc.IH[OF this] show ?thesis by simp
  next
    case (Cons z zs)
    with Suc.prems show ?thesis by auto
  qed
qed

lemma regexExec_Some:
  assumes "regexExec r s li = Some (j, y)"
  shows "li \<le> j" and "j \<le> length s" and "y \<in> set (rmatch r s (j, []))"
proof -
  from assms have le: "li \<le> length s"
    and sc: "scanFrom r s (Suc (length s - li)) li = Some (j, y)"
    by (auto simp: regexExec_def split: if_splits)
  from scanFrom_Some[OF sc] le show "li \<le> j" "j \<le> length s" "y \<in> set (rmatch r s (j, []))"
    by auto
qed

lemma regexExec_progress:
  assumes "advances r" and "regexExec r s li = Some (j, e, caps)"
  shows "Suc (length s) - e < Suc (length s) - li"
proof -
  from regexExec_Some[OF assms(2)]
  have "li \<le> j" "j \<le> length s" "(e, caps) \<in> set (rmatch r s (j, []))" .
  moreover from rmatch_advances[OF assms(1) this(3)] have "j < e" by simp
  ultimately show ?thesis by simp
qed

section \<open>Geocoder (background/geocoder.js, in src/utils/constants.js from line 136)\<close>

record candidate =
  cand_name :: string
  qualifier :: "string option"
  pattern :: string
  confidence :: string
  contextText :: string
  cand_index :: nat

text \<open>\<^verbatim>\<open>[A-Z][a-zA-Z]+(?:\s+[A-Z][a-zA-Z]+)*\<close>, the shape of both groups of
  \<^verbatim>\<open>pattern1\<close>.\<close>

definition mixedToken :: regex where
  "mixedToken = Seq (Class isUpper) (Repeat (Class isAlpha) 1 None)"

definition mixedTokens :: regex where
  "mixedTokens =
     Seq mixedToken (Repeat (Seq (Repeat (Class isSpace) 1 None) mixedToken) 0 None)"

text \<open>\<^verbatim>\<open>/\b([A-Z][a-zA-Z]+(?:\s+[A-Z][a-zA-Z]+)*),\s*([A-Z][a-zA-Z]+(?:\s+[A-Z][a-zA-Z]+)*)\b/g\<close>\<close>

definition pattern1 :: regex where
  "pattern1 =
     Seq WordBoundary
       (Seq (Group mixedTokens)
         (Seq (Class (\<lambda>c. c = CHR '',''))
           (Seq (Repeat (Class isSpace) 0 None)
             (Seq (Group mixedTokens) WordBoundary))))"

text \<open>\<^verbatim>\<open>/\b([A-Z][a-z]+(?:\s+[A-Z][a-z]+){0,2})\b/g\<close>\<close>

definition capitalizedToken :: regex where
  "capitalizedToken = Seq (Class isUpper) (Repeat (Class isLower) 1 None)"

definition pattern2 :: regex where
  "pattern2 =
     Seq WordBoundary
       (Seq (Group
              (Seq capitalizedToken
                (Repeat (Seq (Repeat (Class isSpace) 1 None) capitalizedToken) 0 (Some 2))))
            WordBoundary)"

lemma advances_pattern1: "advances pattern1"
  by (simp add: pattern1_def mixedTokens_def mixedToken_def)

lemma advances_pattern2: "advances pattern2"
  by (simp add: pattern2_def capitalizedToken_def)

text \<open>The \<^verbatim>\<open>while\<close> loop of \<^verbatim>\<open>extractCandidates\<close>; its state is the
  \<^verbatim>\<open>lastIndex\<close> of the pattern and the array \<^verbatim>\<open>candidates\<close>.\<close>

function extractCandidates_loop :: "string \<Rightarrow> nat \<Rightarrow> candidate list \<Rightarrow> candidate list" where
  "extractCandidates_loop text lastIndex candidates =
     (case regexExec pattern1 text lastIndex of
        None \<Rightarrow> candidates
      | Some (i, y) \<Rightarrow>
          (let cityName = trim (capture text y 1);
               qual = trim (capture text y 2)
           in if isStopWord cityName then extractCandidates_loop text (fst y) candidates
              else extractCandidates_loop text (fst y)
                     (candidates @
                        [\<lparr>cand_name = cityName, qualifier = Some qual,
                          pattern = ''city-qualifier'', confidence = ''high'',
                          contextText = getContext text i, cand_index = i\<rparr>])))"
  by pat_completeness auto
termination
  by (relation "measure (\<lambda>(text, lastIndex, candidates). Suc (length text) - lastIndex)")
     (auto dest: regexExec_progress[OF advances_pattern1])

declare extractCandidates_loop.simps [simp del]

definition extractCandidates :: "string \<Rightarrow> candidate list" where
  "extractCandidates text = extractCandidates_loop text 0 []"

definition falsePositives :: "string list" where
  "falsePositives =
     [''Monday'', ''Tuesday'', ''Wednesday'', ''Thursday'', ''Friday'', ''Saturday'', ''Sunday'',
      ''January'', ''February'', ''March'', ''April'', ''May'', ''June'',
      ''July'', ''August'', ''September'', ''October'', ''November'', ''December'',
      ''Reading'', ''Bath'', ''Nice'', ''Mobile'', ''China'', ''Jordan'',
      ''Hope'', ''Liberty'', ''America'', ''Europe'', ''Asia'', ''Africa'',
      ''North'', ''South'', ''East'', ''West'',
      ''King'', ''Queen'', ''Prince'', ''Princess'', ''Lord'', ''Lady'',
      ''Saint'', ''Roman'', ''Greek'', ''English'', ''French'', ''German'',
      ''First'', ''Second'', ''Third'', ''Last'', ''Great'', ''Little'',
      ''New'', ''Old'', ''Early'', ''Late'', ''Modern'', ''Ancient'',
      ''Time'', ''Date'', ''Pop'', ''Anthem'', ''Alba'']"

definition isCommonFalsePositive :: "string \<Rightarrow> bool" where
  "isCommonFalsePositive word = (word \<in> set falsePositives)"

text \<open>
  The test of \<^verbatim>\<open>extractCapitalizedWords\<close> on the character after the match:
  \<^verbatim>\<open>text[match.index + match[0].length]\<close> exists and matches
  \<^verbatim>\<open>/[a-z]/\<close>.
\<close>

definition lowercaseAfter :: "string \<Rightarrow> nat \<Rightarrow> mstate \<Rightarrow> bool" where
  "lowercaseAfter text i y =
     (let nextChar = i + length (substring text i (fst y))
      in nextChar < length text \<and> isLower (text ! nextChar))"

text \<open>The \<^verbatim>\<open>while\<close> loop of \<^verbatim>\<open>extractCapitalizedWords\<close>; its state is the
  \<^verbatim>\<open>lastIndex\<close> of the pattern, the set \<^verbatim>\<open>seen\<close> and the array
  \<^verbatim>\<open>candidates\<close>.\<close>

function extractCapitalizedWords_loop ::
  "string \<Rightarrow> nat \<Rightarrow> string set \<Rightarrow> candidate list \<Rightarrow> candidate list" where
  "extractCapitalizedWords_loop text lastIndex seen candidates =
     (case regexExec pattern2 text lastIndex of
        None \<Rightarrow> candidates
      | Some (i, y) \<Rightarrow>
          (let word = trim (capture text y 1)
           in if toLowerCase word \<in> seen
              then extractCapitalizedWords_loop text (fst y) seen candidates
              else if isStopWord word \<or> isCommonFalsePositive word
              then extractCapitalizedWords_loop text (fst y) seen candidates
              else if lowercaseAfter text i y
              then extractCapitalizedWords_loop text (fst y) seen candidates
              else extractCapitalizedWords_loop text (fst y) (insert (toLowerCase word) seen)
                     (candidates @
                        [\<lparr>cand_name = word, qualifier = None,
                          pattern = ''capitalized-word'', confidence = ''medium'',
                          contextText = getContext text i, cand_index = i\<rparr>])))"
  by pat_completeness auto
termination
  by (relation "measure (\<lambda>(text, lastIndex, seen, candidates). Suc (length text) - lastIndex)")
     (auto dest: regexExec_progress[OF advances_pattern2])

declare extractCapitalizedWords_loop.simps [simp del]

definition extractCapitalizedWords :: "string \<Rightarrow> candidate list" where
  "extractCapitalizedWords text = extractCapitalizedWords_loop text 0 {} []"

text \<open>The same loop with the test on the next character taken out, for comparison with
  \<^const>\<open>extractCapitalizedWords_loop\<close>.\<close>

function extractCapitalizedWords_loop_noNextChar ::
  "string \<Rightarrow> nat \<Rightarrow> string set \<Rightarrow> candidate list \<Rightarrow> candidate list" where
  "extractCapitalizedWords_loop_noNextChar text lastIndex seen candidates =
     (case regexExec pattern2 text lastIndex of
        None \<Rightarrow> candidates
      | Some (i, y) \<Rightarrow>
          (let word = trim (capture text y 1)
           in if toLowerCase word \<in> seen
              then extractCapitalizedWords_loop_noNextChar text (fst y) seen candidates
              else if isStopWord word \<or> isCommonFalsePositive word
              then extractCapitalizedWords_loop_noNextChar text (fst y) seen candidates
              else extractCapitalizedWords_loop_noNextChar text (fst y)
                     (insert (toLowerCase word) seen)
                     (candidates @
                        [\<lparr>cand_name = word, qualifier = None,
                          pattern = ''capitalized-word'', confidence = ''medium'',
                          contextText = getContext text i, cand_index = i\<rparr>])))"
  by pat_completeness auto
termination
  by (relation "measure (\<lambda>(text, lastIndex, seen, candidates). Suc (length text) - lastIndex)")
     (auto dest: regexExec_progress[OF advances_pattern2])

declare extractCapitalizedWords_loop_noNextChar.simps [simp del]

definition extractCapitalizedWords_noNextChar :: "string \<Rightarrow> candidate list" where
  "extractCapitalizedWords_noNextChar text = extractCapitalizedWords_loop_noNextChar text 0 {} []"


text \<open>
  \<^verbatim>\<open>Array.prototype.sort(compare)\<close> is a stable sort. For a comparator that orders
  the elements consistently, as both comparators of the geocoder do, every stable sort
  returns the same array; it is modelled by insertion from the right, where an element
  goes in front of the first one it does not compare greater than.
\<close>

fun insertSorted :: "('a \<Rightarrow> 'a \<Rightarrow> int) \<Rightarrow> 'a \<Rightarrow> 'a list \<Rightarrow> 'a list" where
  "insertSorted compare x [] = [x]"
| "insertSorted compare x (y # ys) =
     (if compare x y \<le> 0 then x # y # ys else y # insertSorted compare x ys)"

definition arraySort :: "('a \<Rightarrow> 'a \<Rightarrow> int) \<Rightarrow> 'a list \<Rightarrow> 'a list" where
  "arraySort compare xs = foldr (insertSorted compare) xs []"

text \<open>
  \<^verbatim>\<open>a.localeCompare(b)\<close> for strings of upper-case ASCII letters, the alphabet
  of ISO country codes: there the collation order is the order of the code units.
\<close>

definition localeCompare :: "string \<Rightarrow> string \<Rightarrow> int" where
  "localeCompare a b = (if a < b then - 1 else if a = b then 0 else 1)"

text \<open>
  The \<^verbatim>\<open>Map\<close> \<^verbatim>\<open>countryCounts\<close> as the list of its entries in insertion
  order: \<^verbatim>\<open>set\<close> on a key that is present keeps the position of the entry.
\<close>

fun mapSet :: "string \<Rightarrow> nat \<Rightarrow> (string \<times> nat) list \<Rightarrow> (string \<times> nat) list" where
  "mapSet k v [] = [(k, v)]"
| "mapSet k v (e # es) = (if fst e = k then (k, v) # es else e # mapSet k v es)"

text \<open>\<^verbatim>\<open>countryCounts.get(k) || 0\<close>\<close>

definition mapGetOr0 :: "(string \<times> nat) list \<Rightarrow> string \<Rightarrow> nat" where
  "mapGetOr0 countryCounts k =
     (case map_of countryCounts k of None \<Rightarrow> 0 | Some n \<Rightarrow> if n = 0 then 0 else n)"

text \<open>The inner loop of \<^verbatim>\<open>detectCountriesFromCandidates\<close> over the matches of one
  candidate; \<^verbatim>\<open>if (match.country)\<close> skips the empty string.\<close>

fun countMatches :: "city list \<Rightarrow> (string \<times> nat) list \<Rightarrow> (string \<times> nat) list" where
  "countMatches [] countryCounts = countryCounts"
| "countMatches (m # matches) countryCounts =
     (if country m \<noteq> []
      then countMatches matches
             (mapSet (country m) (mapGetOr0 countryCounts (country m) + 1) countryCounts)
      else countMatches matches countryCounts)"

text \<open>The outer loop; a rejected search is caught and the candidate skipped.\<close>

fun countCandidates ::
  "GeoNamesDB \<Rightarrow> candidate list \<Rightarrow> (string \<times> nat) list \<Rightarrow> (string \<times> nat) list" where
  "countCandidates db [] countryCounts = countryCounts"
| "countCandidates db (c # candidates) countryCounts =
     (case searchByName db (cand_name c) of
        Inl e \<Rightarrow> countCandidates db candidates countryCounts
      | Inr matches \<Rightarrow> countCandidates db candidates (countMatches matches countryCounts))"

definition compareCounts :: "string \<times> nat \<Rightarrow> string \<times> nat \<Rightarrow> int" where
  "compareCounts a b =
     (if snd b \<noteq> snd a then int (snd b) - int (snd a)
      else localeCompare (fst a) (fst b))"

text \<open>The result objects \<^verbatim>\<open>{ code, count }\<close> are the pairs of code and count.\<close>

definition detectCountriesFromCandidates ::
  "candidate list \<Rightarrow> GeoNamesDB \<Rightarrow> (string \<times> nat) list" where
  "detectCountriesFromCandidates candidates db =
     take 10 (arraySort compareCounts (countCandidates db candidates []))"

text \<open>The country codes counted by the two loops, one for every record returned for a
  candidate whose country code is not empty; a candidate whose search is rejected
  contributes none.\<close>

definition countedCodes :: "GeoNamesDB \<Rightarrow> candidate list \<Rightarrow> string list" where
  "countedCodes db cands =
     concat (map (\<lambda>c. case searchByName db (cand_name c) of
                         Inl e \<Rightarrow> []
                       | Inr ms \<Rightarrow> filter (\<lambda>k. k \<noteq> []) (map country ms)) cands)"

text \<open>The invariant of the frequency map: its keys are distinct and it maps every code
  counted so far to the number of times it was counted.\<close>

definition countsOf :: "(string \<times> nat) list \<Rightarrow> string list \<Rightarrow> bool" where
  "countsOf cc hits =
     (distinct (map fst cc) \<and>
      (\<forall>k. map_of cc k = (if k \<in> set hits then Some (count_list hits k) else None)))"

text \<open>\<^verbatim>\<open>filterByQualifier(matches, qualifier)\<close>\<close>

definition qualifierMatches :: "string \<Rightarrow> city \<Rightarrow> bool" where
  "qualifierMatches normalizedQualifier m =
     (if toLowerCase (country m) = normalizedQualifier then True
      else if toLowerCase (getCountryName (country m)) = normalizedQualifier then True
      else if list_ex (\<lambda>(code, nm). toLowerCase nm = normalizedQualifier \<and> code = country m)
                COUNTRY_NAMES then True
      else if admin1 m \<noteq> [] \<and> toLowerCase (admin1 m) = normalizedQualifier then True
      else False)"

definition filterByQualifier :: "city list \<Rightarrow> string \<Rightarrow> city list" where
  "filterByQualifier matches qual = filter (qualifierMatches (toLowerCase qual)) matches"

text \<open>
  \<^verbatim>\<open>findMatches\<close> in its three steps. The search scope (lines 393-401):
\<close>

definition searchScope :: "candidate \<Rightarrow> GeoNamesDB \<Rightarrow> bool \<Rightarrow> dberror + city list" where
  "searchScope c db useCountryDataOnly =
     (if useCountryDataOnly then searchCountryData db (cand_name c)
      else searchAllSources db (cand_name c))"

text \<open>The filter by the user-selected countries (lines 407-415), applied when
  \<^verbatim>\<open>filterCountries\<close> is an array that is not empty:\<close>

definition filterActive :: "string list option \<Rightarrow> bool" where
  "filterActive filterCountries =
     (case filterCountries of None \<Rightarrow> False | Some fc \<Rightarrow> length fc > 0)"

definition countryFilter :: "string list option \<Rightarrow> city list \<Rightarrow> city list" where
  "countryFilter filterCountries cityMatches =
     (case filterCountries of
        None \<Rightarrow> cityMatches
      | Some fc \<Rightarrow>
          if length fc > 0 then filter (\<lambda>m. country m \<in> set fc) cityMatches
          else cityMatches)"

text \<open>The choice among the remaining matches (lines 417-431);
  \<^verbatim>\<open>if (candidate.qualifier)\<close> holds for a string that is not empty.\<close>

definition comparePop :: "city \<Rightarrow> city \<Rightarrow> int" where
  "comparePop a b = (if pop b = 0 then 0 else pop b) - (if pop a = 0 then 0 else pop a)"

definition selectMatches :: "candidate \<Rightarrow> city list \<Rightarrow> city list" where
  "selectMatches c cityMatches =
     (case qualifier c of
        Some q \<Rightarrow>
          if q \<noteq> [] then filterByQualifier cityMatches q
          else take 1 (arraySort comparePop cityMatches)
      | None \<Rightarrow> take 1 (arraySort comparePop cityMatches))"

definition findMatches ::
  "candidate \<Rightarrow> GeoNamesDB \<Rightarrow> bool \<Rightarrow> string list option \<Rightarrow> dberror + city list" where
  "findMatches c db useCountryDataOnly filterCountries =
     (case searchScope c db useCountryDataOnly of
        Inl e \<Rightarrow> Inl e
      | Inr cityMatches \<Rightarrow>
          if length cityMatches = 0 then Inr []
          else if filterActive filterCountries
                  \<and> length (countryFilter filterCountries cityMatches) = 0 then Inr []
          else Inr (selectMatches c (countryFilter filterCountries cityMatches)))"

text \<open>\<^verbatim>\<open>matchCandidates\<close>: the first match of every candidate that has one; a
  rejected search is logged and the candidate skipped.\<close>

fun matchCandidates ::
  "candidate list \<Rightarrow> GeoNamesDB \<Rightarrow> bool \<Rightarrow> string list option \<Rightarrow> city list" where
  "matchCandidates [] db useCountryDataOnly filterCountries = []"
| "matchCandidates (c # candidates) db useCountryDataOnly filterCountries =
     (case findMatches c db useCountryDataOnly filterCountries of
        Inl e \<Rightarrow> matchCandidates candidates db useCountryDataOnly filterCountries
      | Inr matches \<Rightarrow>
          (if length matches > 0
           then hd matches # matchCandidates candidates db useCountryDataOnly filterCountries
           else matchCandidates candidates db useCountryDataOnly filterCountries))"

text \<open>\<^verbatim>\<open>extractDetectedCountries\<close>: the distinct country codes that are not empty,
  sorted by \<^verbatim>\<open>Array.prototype.sort()\<close>, that is by code units.\<close>

definition extractDetectedCountries :: "city list \<Rightarrow> string list" where
  "extractDetectedCountries locs =
     sort (remdups (filter (\<lambda>k. k \<noteq> []) (map country locs)))"

text \<open>
  \<^verbatim>\<open>geocodeText(text, db, options)\<close>. The field \<^verbatim>\<open>detectedCountries\<close> of the
  result holds \<^verbatim>\<open>{ code, count }\<close> objects in detection mode and country codes
  after a full scan.
\<close>

datatype detected = Counts "(string \<times> nat) list" | Codes "string list"

record geocodeResult =
  locations :: "city list"
  detectedCountries :: detected

definition geocodeText ::
  "string \<Rightarrow> GeoNamesDB \<Rightarrow> bool \<Rightarrow> bool \<Rightarrow> string list option \<Rightarrow> geocodeResult" where
  "geocodeText text db detectionOnly useCountryDataOnly filterCountries =
     (let patternCandidates = extractCandidates text;
          wordCandidates = extractCapitalizedWords text;
          allCandidates = patternCandidates @ wordCandidates
      in if length allCandidates = 0
         then \<lparr>locations = [],
               detectedCountries = (if detectionOnly then Counts [] else Codes [])\<rparr>
         else if detectionOnly
         then \<lparr>locations = [],
               detectedCountries = Counts (detectCountriesFromCandidates allCandidates db)\<rparr>
         else (let deduplicated =
                     deduplicateBy
                       (matchCandidates allCandidates db useCountryDataOnly filterCountries)
                       geonameId
               in \<lparr>locations = deduplicated,
                   detectedCountries = Codes (extractDetectedCountries deduplicated)\<rparr>))"

section \<open>Example data\<close>

definition mkCity :: "int \<Rightarrow> string \<Rightarrow> string \<Rightarrow> string \<Rightarrow> int \<Rightarrow> city" where
  "mkCity i n c a p =
     \<lparr>geonameId = i, name = n, ascii = toLowerCase n, alternates = [], lat = 0, lng = 0,
      country = c, admin1 = a, pop = p, fclass = ''P'', fcode = ''PPL''\<rparr>"

definition mkCandidate :: "string \<Rightarrow> string option \<Rightarrow> candidate" where
  "mkCandidate n q =
     \<lparr>cand_name = n, qualifier = q,
      pattern = (if q = None then ''capitalized-word'' else ''city-qualifier''),
      confidence = (if q = None then ''medium'' else ''high''),
      contextText = n, cand_index = 0\<rparr>"

text \<open>A store with Paris (FR) and Berlin (DE) in the bundled partition and Paris (FR),
  Paris (US, TX) and Tokyo (JP) in the downloaded one; the download cache names FR and
  JP and a country, NP, of which the partition holds no record.\<close>

definition exDB :: GeoNamesDB where
  "exDB =
     \<lparr>isReady = True,
      cities = [mkCity 1 ''Paris'' ''FR'' ''11'' 2138551, mkCity 3 ''Berlin'' ''DE'' ''16'' 3426354],
      metadata = [],
      countryData =
        [mkCity 1 ''Paris'' ''FR'' ''11'' 2138551, mkCity 2 ''Paris'' ''US'' ''TX'' 24782,
         mkCity 4 ''Tokyo'' ''JP'' ''40'' 8336599],
      downloadCache =
        [\<lparr>countryCode = ''FR'', downloadDate = ''2024-01-01T00:00:00.000Z'', cityCount = 1\<rparr>,
         \<lparr>countryCode = ''JP'', downloadDate = ''2024-01-01T00:00:00.000Z'', cityCount = 1\<rparr>,
         \<lparr>countryCode = ''NP'', downloadDate = ''2024-01-01T00:00:00.000Z'', cityCount = 0\<rparr>]\<rparr>"

text \<open>A store with two records named Georgetown in the bundled partition and two
  records named Springfield, of equal population, in the downloaded one.\<close>

definition georgetownDB :: GeoNamesDB where
  "georgetownDB =
     \<lparr>isReady = True,
      cities = [mkCity 10 ''Georgetown'' ''GY'' ''12'' 200000,
                mkCity 11 ''Georgetown'' ''guyana-alt'' '''' 50],
      metadata = [],
      countryData = [mkCity 12 ''Springfield'' ''US'' ''IL'' 100,
                     mkCity 13 ''Springfield'' ''US'' ''MO'' 100],
      downloadCache = []\<rparr>"

text \<open>A store whose bundled partition holds New York.\<close>

definition newYorkDB :: GeoNamesDB where
  "newYorkDB =
     \<lparr>isReady = True,
      cities = [mkCity 20 ''New York'' ''US'' ''NY'' 8175133],
      metadata = [],
      countryData = [],
      downloadCache = []\<rparr>"

section \<open>Evaluation of the example store\<close>

lemmas lower_defs = toLowerCase_def charToLower_def upperAZ_def lowerAZ_def

lemma exDB_ready: "isReady exDB"
  by (simp add: exDB_def)

lemma exDB_searchByName_Paris:
  "searchByName exDB ''Paris'' = Inr [mkCity 1 ''Paris'' ''FR'' ''11'' 2138551]"
  by (simp add: searchByName_def exDB_def index_getAll_def mkCity_def lower_defs)

lemma exDB_searchByName_Berlin:
  "searchByName exDB ''Berlin'' = Inr [mkCity 3 ''Berlin'' ''DE'' ''16'' 3426354]"
  by (simp add: searchByName_def exDB_def index_getAll_def mkCity_def lower_defs)

lemma exDB_searchCountryData_Paris:
  "searchCountryData exDB ''Paris'' =
     Inr [mkCity 1 ''Paris'' ''FR'' ''11'' 2138551, mkCity 2 ''Paris'' ''US'' ''TX'' 24782]"
  by (simp add: searchCountryData_def exDB_def index_getAll_def mkCity_def lower_defs)

lemma exDB_searchCountryData_Tokyo:
  "searchCountryData exDB ''Tokyo'' = Inr [mkCity 4 ''Tokyo'' ''JP'' ''40'' 8336599]"
  by (simp add: searchCountryData_def exDB_def index_getAll_def mkCity_def lower_defs)

section \<open>The gazetteer store\<close>

lemma dedupe_loop_filter:
  "dedupe_loop xs seen acc = acc @ deduplicateBy_filter geonameId seen xs"
  by (induction xs arbitrary: seen acc) auto

lemma deduplicateBy_filter_append:
  "deduplicateBy_filter f seen (xs @ ys) =
     deduplicateBy_filter f seen xs @ deduplicateBy_filter f (seen \<union> f ` set xs) ys"
  by (induction xs arbitrary: seen) (auto simp: insert_absorb)

lemma set_deduplicateBy_filter: "set (deduplicateBy_filter f seen xs) \<subseteq> set xs"
  by (induction xs arbitrary: seen) auto

lemma keys_deduplicateBy_filter: "f ` set (deduplicateBy_filter f seen xs) = f ` set xs - seen"
  by (induction xs arbitrary: seen) auto

lemma distinct_deduplicateBy_filter: "distinct (map f (deduplicateBy_filter f seen xs))"
proof (induction xs arbitrary: seen)
  case Nil
  show ?case by simp
next
  case (Cons c cs)
  have "f c \<notin> f ` set (deduplicateBy_filter f (insert (f c) seen) cs)"
    by (simp add: keys_deduplicateBy_filter)
  with Cons show ?case by auto
qed

lemma deduplicateBy_filter_id:
  "distinct (map f xs) \<Longrightarrow> f ` set xs \<inter> seen = {} \<Longrightarrow> deduplicateBy_filter f seen xs = xs"
  by (induction xs arbitrary: seen) auto

lemma store_get_None: "(store_get kp k st = None) = (\<forall>r \<in> set st. kp r \<noteq> k)"
  by (auto simp: store_get_def find_None_iff)

lemma index_count_0: "(index_count ix k st = 0) = (\<forall>r \<in> set st. ix r \<noteq> k)"
  by (simp add: index_count_def index_getAll_def filter_empty_conv)

text \<open>
  C6. When the two partition searches for a name return \<open>g\<close> (bundled partition) and
  \<open>c\<close> (downloaded partition), \<^verbatim>\<open>searchAllSources\<close> returns a list \<open>res\<close> of records
  of \<open>g\<close> and \<open>c\<close> whose ids are exactly the ids of \<open>g\<close> together with the ids of \<open>c\<close>,
  with no id twice. The records of the bundled partition come first: \<open>res\<close> is \<open>rg\<close>
  followed by \<open>rc\<close>, where \<open>rg\<close> holds the ids of \<open>g\<close> (and is \<open>g\<close> itself when the ids
  of \<open>g\<close> are distinct, as they are for a primary key) and \<open>rc\<close> holds records of \<open>c\<close>
  whose ids do not occur in \<open>g\<close>.
\<close>

theorem searchAllSources_union:
  assumes g: "searchByName db nm = Inr g"
    and c: "searchCountryData db nm = Inr c"
  shows "\<exists>res rg rc.
           searchAllSources db nm = Inr res \<and>
           set res \<subseteq> set g \<union> set c \<and>
           geonameId ` set res = geonameId ` set g \<union> geonameId ` set c \<and>
           distinct (map geonameId res) \<and>
           res = rg @ rc \<and> set rg \<subseteq> set g \<and>
           geonameId ` set rg = geonameId ` set g \<and>
           set rc \<subseteq> set c \<and> geonameId ` set rc \<inter> geonameId ` set g = {} \<and>
           (distinct (map geonameId g) \<longrightarrow> rg = g)"
proof -
  let ?rg = "deduplicateBy_filter geonameId {} g"
  let ?rc = "deduplicateBy_filter geonameId (geonameId ` set g) c"
  let ?res = "?rg @ ?rc"
  have res: "searchAllSources db nm = Inr ?res"
    by (simp add: searchAllSources_def g c dedupe_loop_filter deduplicateBy_filter_append)
  have eq: "?res = deduplicateBy_filter geonameId {} (g @ c)"
    by (simp add: deduplicateBy_filter_append)
  have 1: "set ?res \<subseteq> set g \<union> set c"
    using set_deduplicateBy_filter[of geonameId "{}" g]
      set_deduplicateBy_filter[of geonameId "geonameId ` set g" c] by auto
  have 2: "geonameId ` set ?res = geonameId ` set g \<union> geonameId ` set c"
    unfolding eq by (simp add: keys_deduplicateBy_filter image_Un)
  have 3: "distinct (map geonameId ?res)"
    unfolding eq by (rule distinct_deduplicateBy_filter)
  have 4: "set ?rg \<subseteq> set g" by (rule set_deduplicateBy_filter)
  have 5: "geonameId ` set ?rg = geonameId ` set g" by (simp add: keys_deduplicateBy_filter)
  have 6: "set ?rc \<subseteq> set c" by (rule set_deduplicateBy_filter)
  have 7: "geonameId ` set ?rc \<inter> geonameId ` set g = {}"
    by (auto simp: keys_deduplicateBy_filter)
  have 8: "distinct (map geonameId g) \<longrightarrow> ?rg = g" by (simp add: deduplicateBy_filter_id)
  from res 1 2 3 4 5 6 7 8 show ?thesis by blast
qed

theorem searchAllSources_union_witness:
  "\<exists>res. searchAllSources exDB ''Paris'' = Inr res \<and> distinct (map geonameId res) \<and>
     geonameId ` set res = {1, 2} \<and> take 1 res = [mkCity 1 ''Paris'' ''FR'' ''11'' 2138551]"
proof -
  from searchAllSources_union[OF exDB_searchByName_Paris exDB_searchCountryData_Paris]
  obtain res rg rc where
    "searchAllSources exDB ''Paris'' = Inr res" "distinct (map geonameId res)"
    "geonameId ` set res =
       geonameId ` set [mkCity 1 ''Paris'' ''FR'' ''11'' 2138551] \<union>
       geonameId ` set [mkCity 1 ''Paris'' ''FR'' ''11'' 2138551,
                        mkCity 2 ''Paris'' ''US'' ''TX'' 24782]"
    "res = rg @ rc"
    "distinct (map geonameId [mkCity 1 ''Paris'' ''FR'' ''11'' 2138551]) \<longrightarrow>
       rg = [mkCity 1 ''Paris'' ''FR'' ''11'' 2138551]"
    by (elim exE conjE)
  then show ?thesis by (auto simp: mkCity_def)
qed

text \<open>
  C7. On an initialised store, \<^verbatim>\<open>isCountryDownloaded(code)\<close> is fulfilled with true
  if and only if the download cache has an entry for \<open>code\<close> and the downloaded
  partition holds at least one record with that country code. In every state it is
  fulfilled with true only if both hold, and whenever the partition holds no record with
  that country code it is fulfilled with false, whatever the cache says.
\<close>

theorem isCountryDownloaded_iff:
  "(isReady db \<longrightarrow>
      (isCountryDownloaded db code = Inr True) =
        ((\<exists>e \<in> set (downloadCache db). countryCode e = code) \<and>
         (\<exists>r \<in> set (countryData db). country r = code))) \<and>
   (isCountryDownloaded db code = Inr True \<longrightarrow>
      (\<exists>e \<in> set (downloadCache db). countryCode e = code) \<and>
      (\<exists>r \<in> set (countryData db). country r = code)) \<and>
   ((\<forall>r \<in> set (countryData db). country r \<noteq> code) \<longrightarrow>
      isCountryDownloaded db code = Inr False)"
proof (cases "isReady db")
  case False
  then show ?thesis by (simp add: isCountryDownloaded_def)
next
  case True
  show ?thesis
  proof (cases "store_get countryCode code (downloadCache db)")
    case None
    then show ?thesis
      using store_get_None[of countryCode code "downloadCache db"]
      by (simp add: isCountryDownloaded_def)
  next
    case (Some e)
    then have "\<exists>e \<in> set (downloadCache db). countryCode e = code"
      using store_get_None[of countryCode code "downloadCache db"] by simp
    with Some True show ?thesis
      using index_count_0[of country code "countryData db"]
      by (simp add: isCountryDownloaded_def)
  qed
qed

theorem isCountryDownloaded_iff_witness:
  "isReady exDB \<and> isCountryDownloaded exDB ''FR'' = Inr True \<and>
   isCountryDownloaded exDB ''NP'' = Inr False \<and>
   store_get countryCode ''NP'' (downloadCache exDB) \<noteq> None"
proof -
  have 1: "\<exists>e \<in> set (downloadCache exDB). countryCode e = ''FR''"
    by (simp add: exDB_def)
  have 2: "\<exists>r \<in> set (countryData exDB). country r = ''FR''"
    by (simp add: exDB_def mkCity_def)
  have 3: "\<forall>r \<in> set (countryData exDB). country r \<noteq> ''NP''"
    by (simp add: exDB_def mkCity_def)
  have 4: "store_get countryCode ''NP'' (downloadCache exDB) \<noteq> None"
    by (simp add: exDB_def store_get_def)
  from isCountryDownloaded_iff[of exDB "''FR''"] exDB_ready 1 2
  have 5: "isCountryDownloaded exDB ''FR'' = Inr True" by simp
  from isCountryDownloaded_iff[of exDB "''NP''"] 3
  have 6: "isCountryDownloaded exDB ''NP'' = Inr False" by simp
  from exDB_ready 4 5 6 show ?thesis by simp
qed

text \<open>
  C8 as stated fails: before initialisation \<^verbatim>\<open>isCountryDownloaded\<close>, the two counts
  and \<^verbatim>\<open>getDownloadedCountries\<close> are fulfilled with a default value and are not
  rejected.
\<close>

theorem storeUnavailable_counterexample:
  "isCountryDownloaded (exDB\<lparr>isReady := False\<rparr>) ''FR'' = Inr False \<and>
   isCountryDownloaded (exDB\<lparr>isReady := False\<rparr>) ''FR'' \<noteq> Inl DatabaseNotInitialized \<and>
   getCitiesCount (exDB\<lparr>isReady := False\<rparr>) = Inr 0 \<and>
   getCountryDataCount (exDB\<lparr>isReady := False\<rparr>) = Inr 0 \<and>
   getDownloadedCountries (exDB\<lparr>isReady := False\<rparr>) = Inr []"
  by (simp add: isCountryDownloaded_def getCitiesCount_def getCountryDataCount_def
      getDownloadedCountries_def)

text \<open>
  C8, amended. Before initialisation has completed (\<^verbatim>\<open>isReady\<close> is false) the
  partition searches and the bulk loads are rejected with
  \<^verbatim>\<open>Database not initialized\<close>; the status queries are fulfilled with a default:
  \<^verbatim>\<open>isCitiesLoaded\<close> and \<^verbatim>\<open>isCountryDownloaded\<close> with false, the counts with
  0, \<^verbatim>\<open>getDownloadedCountries\<close> with the empty list.
\<close>

theorem notReady_operations:
  assumes "\<not> isReady db"
  shows "searchByName db nm = Inl DatabaseNotInitialized \<and>
         searchCountryData db nm = Inl DatabaseNotInitialized \<and>
         searchAllSources db nm = Inl DatabaseNotInitialized \<and>
         loadCities now db cs = Inl DatabaseNotInitialized \<and>
         loadCountryData now' db code cs = Inl DatabaseNotInitialized \<and>
         isCitiesLoaded db = Inr False \<and>
         getCitiesCount db = Inr 0 \<and>
         getCountryDataCount db = Inr 0 \<and>
         isCountryDownloaded db code = Inr False \<and>
         getDownloadedCountries db = Inr []"
  using assms
  by (simp add: searchByName_def searchCountryData_def searchAllSources_def loadCities_def
      loadCountryData_def isCitiesLoaded_def getCitiesCount_def getCountryDataCount_def
      isCountryDownloaded_def getDownloadedCountries_def)

theorem notReady_operations_witness:
  "\<not> isReady (exDB\<lparr>isReady := False\<rparr>) \<and>
   searchByName (exDB\<lparr>isReady := False\<rparr>) ''Paris'' = Inl DatabaseNotInitialized \<and>
   loadCities 0 (exDB\<lparr>isReady := False\<rparr>) [] = Inl DatabaseNotInitialized \<and>
   isCountryDownloaded (exDB\<lparr>isReady := False\<rparr>) ''FR'' = Inr False"
  using notReady_operations[of "exDB\<lparr>isReady := False\<rparr>" "''Paris''" 0 "[]" "''2024''" "''FR''"]
  by simp

section \<open>Sorting with a comparator\<close>

lemma arraySort_Nil: "arraySort compare [] = []"
  by (simp add: arraySort_def)

lemma arraySort_Cons: "arraySort compare (x # xs) = insertSorted compare x (arraySort compare xs)"
  by (simp add: arraySort_def)

lemma set_insertSorted: "set (insertSorted compare x ys) = insert x (set ys)"
  by (induction ys) auto

lemma set_arraySort: "set (arraySort compare xs) = set xs"
  by (induction xs) (simp_all add: arraySort_Nil arraySort_Cons set_insertSorted)

lemma take1_insertSorted:
  "take 1 (insertSorted compare x ys) =
     (case ys of [] \<Rightarrow> [x] | y # zs \<Rightarrow> if compare x y \<le> 0 then [x] else [y])"
  by (cases ys) simp_all

text \<open>Sorting by descending population puts first the earliest record of greatest
  population.\<close>

lemma arraySort_comparePop_first:
  "xs \<noteq> [] \<Longrightarrow>
     \<exists>pre r post. xs = pre @ r # post \<and> (\<forall>m \<in> set pre. pop m < pop r) \<and>
       (\<forall>m \<in> set post. pop m \<le> pop r) \<and> take 1 (arraySort comparePop xs) = [r]"
proof (induction xs)
  case Nil
  then show ?case by simp
next
  case (Cons x xs)
  show ?case
  proof (cases "xs = []")
    case True
    have "x # xs = [] @ x # []" using True by simp
    moreover have "take 1 (arraySort comparePop (x # xs)) = [x]"
      using True by (simp add: arraySort_Cons arraySort_Nil)
    ultimately show ?thesis by (metis empty_iff empty_set)
  next
    case False
    from Cons.IH[OF False] obtain pre r post where
      xs: "xs = pre @ r # post" and pre: "\<forall>m \<in> set pre. pop m < pop r"
      and post: "\<forall>m \<in> set post. pop m \<le> pop r"
      and hd: "take 1 (arraySort comparePop xs) = [r]"
      by blast
    from hd obtain rest where srt: "arraySort comparePop xs = r # rest"
      by (cases "arraySort comparePop xs") simp_all
    have cmp: "(comparePop x r \<le> 0) = (pop r \<le> pop x)"
      by (simp add: comparePop_def)
    show ?thesis
    proof (cases "pop r \<le> pop x")
      case True
      have 1: "x # xs = [] @ x # xs" by simp
      have 2: "\<forall>m \<in> set xs. pop m \<le> pop x"
        using xs pre post True by fastforce
      have 3: "take 1 (arraySort comparePop (x # xs)) = [x]"
        using True by (simp add: arraySort_Cons srt cmp)
      from 1 2 3 show ?thesis by (metis empty_iff empty_set)
    next
      case False
      have 1: "x # xs = (x # pre) @ r # post" using xs by simp
      have 2: "\<forall>m \<in> set (x # pre). pop m < pop r" using pre False by simp
      have 3: "take 1 (arraySort comparePop (x # xs)) = [r]"
        using False by (simp add: arraySort_Cons srt cmp)
      from 1 2 3 post show ?thesis by blast
    qed
  qed
qed

section \<open>The matcher\<close>

lemma set_selectMatches: "set (selectMatches c xs) \<subseteq> set xs"
proof -
  have "set (take 1 (arraySort comparePop xs)) \<subseteq> set xs"
    using set_take_subset[of 1 "arraySort comparePop xs"] by (simp add: set_arraySort)
  then show ?thesis
    by (auto simp: selectMatches_def filterByQualifier_def split: option.splits)
qed

lemma selectMatches_Nil: "selectMatches c [] = []"
  by (simp add: selectMatches_def filterByQualifier_def arraySort_Nil split: option.splits)

lemma countryFilter_Nil: "countryFilter fc [] = []"
  by (simp add: countryFilter_def split: option.splits)

text \<open>The three steps of \<^const>\<open>findMatches\<close> compose; its early returns of the empty
  array agree with what the later steps return on the empty array.\<close>

lemma findMatches_steps:
  "searchScope c db co = Inr ms \<Longrightarrow>
     findMatches c db co fc = Inr (selectMatches c (countryFilter fc ms))"
  by (simp add: findMatches_def selectMatches_Nil countryFilter_Nil)

lemma findMatches_error:
  "searchScope c db co = Inl e \<Longrightarrow> findMatches c db co fc = Inl e"
  by (simp add: findMatches_def)


lemma exDB_scope_Tokyo:
  "searchScope (mkCandidate ''Tokyo'' q) exDB True = Inr [mkCity 4 ''Tokyo'' ''JP'' ''40'' 8336599]"
  by (simp add: searchScope_def mkCandidate_def exDB_searchCountryData_Tokyo)




text \<open>
  C2. For a candidate without qualifier, when the records returned by the search scope
  and kept by the country filter are not none, \<^verbatim>\<open>findMatches\<close> returns exactly one
  record \<open>r\<close> of them: every kept record before \<open>r\<close> has a smaller population and every
  kept record after \<open>r\<close> has a population that is not greater, so \<open>r\<close> is the first
  record of greatest population.
\<close>

theorem findMatches_most_populous:
  assumes "qualifier c = None"
    and "searchScope c db useCountryDataOnly = Inr ms"
    and "countryFilter filterCountries ms \<noteq> []"
  shows "\<exists>pre r post.
           findMatches c db useCountryDataOnly filterCountries = Inr [r] \<and>
           countryFilter filterCountries ms = pre @ r # post \<and>
           (\<forall>m \<in> set pre. pop m < pop r) \<and> (\<forall>m \<in> set post. pop m \<le> pop r)"
proof -
  from arraySort_comparePop_first[OF assms(3)] obtain pre r post where
    "countryFilter filterCountries ms = pre @ r # post"
    "\<forall>m \<in> set pre. pop m < pop r" "\<forall>m \<in> set post. pop m \<le> pop r"
    "take 1 (arraySort comparePop (countryFilter filterCountries ms)) = [r]"
    by blast
  moreover have "findMatches c db useCountryDataOnly filterCountries =
      Inr (take 1 (arraySort comparePop (countryFilter filterCountries ms)))"
    using assms(1,2) by (simp add: findMatches_steps selectMatches_def)
  ultimately show ?thesis by auto
qed

theorem findMatches_most_populous_witness:
  "findMatches (mkCandidate ''Georgetown'' None) georgetownDB False None =
     Inr [mkCity 10 ''Georgetown'' ''GY'' ''12'' 200000] \<and>
   searchScope (mkCandidate ''Georgetown'' None) georgetownDB False =
     Inr [mkCity 10 ''Georgetown'' ''GY'' ''12'' 200000,
          mkCity 11 ''Georgetown'' ''guyana-alt'' '''' 50] \<and>
   findMatches (mkCandidate ''Springfield'' None) georgetownDB True None =
     Inr [mkCity 12 ''Springfield'' ''US'' ''IL'' 100]"
proof -
  have q: "qualifier (mkCandidate ''Georgetown'' None) = None"
    by (simp add: mkCandidate_def)
  have s: "searchScope (mkCandidate ''Georgetown'' None) georgetownDB False =
     Inr [mkCity 10 ''Georgetown'' ''GY'' ''12'' 200000,
          mkCity 11 ''Georgetown'' ''guyana-alt'' '''' 50]"
    by code_simp
  have f: "countryFilter None
     [mkCity 10 ''Georgetown'' ''GY'' ''12'' 200000,
      mkCity 11 ''Georgetown'' ''guyana-alt'' '''' 50] \<noteq> []"
    by (simp add: countryFilter_def filterActive_def)
  from findMatches_most_populous[OF q s f] obtain r where
    one: "findMatches (mkCandidate ''Georgetown'' None) georgetownDB False None = Inr [r]"
    by (elim exE conjE)
  have e: "findMatches (mkCandidate ''Georgetown'' None) georgetownDB False None =
     Inr [mkCity 10 ''Georgetown'' ''GY'' ''12'' 200000]"
    by code_simp
  have t: "findMatches (mkCandidate ''Springfield'' None) georgetownDB True None =
     Inr [mkCity 12 ''Springfield'' ''US'' ''IL'' 100]"
    by code_simp
  from one e s t show ?thesis by simp
qed

lemma findMatches_countries:
  assumes "fc \<noteq> []" and "findMatches c db co (Some fc) = Inr res"
  shows "\<forall>r \<in> set res. country r \<in> set fc"
proof (cases "searchScope c db co")
  case (Inl e)
  with assms(2) show ?thesis by (simp add: findMatches_error)
next
  case (Inr ms)
  with assms(2) have "res = selectMatches c (countryFilter (Some fc) ms)"
    by (simp add: findMatches_steps)
  then have "set res \<subseteq> set (filter (\<lambda>m. country m \<in> set fc) ms)"
    using set_selectMatches[of c "countryFilter (Some fc) ms"] assms(1)
    by (simp add: countryFilter_def filterActive_def)
  then show ?thesis by auto
qed

lemma matchCandidates_countries:
  assumes "fc \<noteq> []"
  shows "\<forall>loc \<in> set (matchCandidates cands db co (Some fc)). country loc \<in> set fc"
proof (induction cands)
  case Nil
  show ?case by simp
next
  case (Cons c cands)
  show ?case
  proof (cases "findMatches c db co (Some fc)")
    case (Inl e)
    with Cons show ?thesis by simp
  next
    case (Inr res)
    from findMatches_countries[OF assms Inr] have "res \<noteq> [] \<longrightarrow> country (hd res) \<in> set fc"
      by simp
    with Cons Inr show ?thesis by simp
  qed
qed

lemma geocodeText_locations_subset:
  "set (locations (geocodeText text db False co fc)) \<subseteq>
     set (matchCandidates (extractCandidates text @ extractCapitalizedWords text) db co fc)"
  using set_deduplicateBy_filter[of geonameId "{}"
      "matchCandidates (extractCandidates text @ extractCapitalizedWords text) db co fc"]
  by (simp add: geocodeText_def Let_def deduplicateBy_def)

text \<open>
  C3 as stated fails for the empty list: with \<^verbatim>\<open>filterCountries = []\<close> nothing is
  filtered, and the candidate Tokyo is matched to the record in JP.
\<close>

theorem findMatches_filterCountries_counterexample:
  "findMatches (mkCandidate ''Tokyo'' None) exDB True (Some []) =
     Inr [mkCity 4 ''Tokyo'' ''JP'' ''40'' 8336599] \<and>
   country (mkCity 4 ''Tokyo'' ''JP'' ''40'' 8336599) \<notin> set []"
proof -
  have "findMatches (mkCandidate ''Tokyo'' None) exDB True (Some []) =
     Inr [mkCity 4 ''Tokyo'' ''JP'' ''40'' 8336599]"
    by code_simp
  then show ?thesis by simp
qed

text \<open>
  C3, amended. Whenever a list of countries that is not empty is given, the records
  returned by the search scope are filtered to the countries of the list before the
  qualifier or the population is looked at; when no record is left there is no match;
  every match is in a country of the list, and so is every location of
  \<^verbatim>\<open>matchCandidates\<close> and of a full scan by \<^verbatim>\<open>geocodeText\<close>. An empty list is
  treated as no list.
\<close>

theorem findMatches_filterCountries:
  "(fc \<noteq> [] \<longrightarrow>
      (\<forall>ms. searchScope c db co = Inr ms \<longrightarrow>
         findMatches c db co (Some fc) =
           Inr (selectMatches c (filter (\<lambda>m. country m \<in> set fc) ms)) \<and>
         (filter (\<lambda>m. country m \<in> set fc) ms = [] \<longrightarrow>
            findMatches c db co (Some fc) = Inr [])) \<and>
      (\<forall>res. findMatches c db co (Some fc) = Inr res \<longrightarrow>
         (\<forall>r \<in> set res. country r \<in> set fc)) \<and>
      (\<forall>loc \<in> set (matchCandidates cands db co (Some fc)). country loc \<in> set fc) \<and>
      (\<forall>loc \<in> set (locations (geocodeText text db False co (Some fc))).
         country loc \<in> set fc)) \<and>
   findMatches c db co (Some []) = findMatches c db co None"
proof -
  have empty: "findMatches c db co (Some []) = findMatches c db co None"
    by (cases "searchScope c db co")
      (simp_all add: findMatches_def countryFilter_def filterActive_def)
  have main: "fc \<noteq> [] \<Longrightarrow> searchScope c db co = Inr ms \<Longrightarrow>
      findMatches c db co (Some fc) =
        Inr (selectMatches c (filter (\<lambda>m. country m \<in> set fc) ms)) \<and>
      (filter (\<lambda>m. country m \<in> set fc) ms = [] \<longrightarrow>
         findMatches c db co (Some fc) = Inr [])" for ms
    by (simp add: findMatches_steps countryFilter_def filterActive_def selectMatches_Nil)
  have scan: "fc \<noteq> [] \<Longrightarrow>
      \<forall>loc \<in> set (locations (geocodeText text db False co (Some fc))). country loc \<in> set fc"
    using geocodeText_locations_subset[of "text" db co "Some fc"]
      matchCandidates_countries[of fc "extractCandidates text @ extractCapitalizedWords text" db co]
    by blast
  from empty main scan findMatches_countries[of fc c db co]
    matchCandidates_countries[of fc cands db co]
  show ?thesis by blast
qed

theorem findMatches_filterCountries_witness:
  "locations (geocodeText ''I visited Paris, France and later Tokyo.'' exDB False True
      (Some [''FR''])) = [mkCity 1 ''Paris'' ''FR'' ''11'' 2138551] \<and>
   locations (geocodeText ''I visited Paris, France and later Tokyo.'' exDB False True None) =
     [mkCity 1 ''Paris'' ''FR'' ''11'' 2138551, mkCity 4 ''Tokyo'' ''JP'' ''40'' 8336599] \<and>
   findMatches (mkCandidate ''Tokyo'' None) exDB True (Some [''FR'']) = Inr []"
proof -
  have ne: "[''FR''] \<noteq> []" by simp
  have flt: "filter (\<lambda>m. country m \<in> set [''FR'']) [mkCity 4 ''Tokyo'' ''JP'' ''40'' 8336599] = []"
    by (simp add: mkCity_def)
  from findMatches_filterCountries[of "[''FR'']" "mkCandidate ''Tokyo'' None" exDB True "[]" "[]"]
    ne
  have "\<forall>ms. searchScope (mkCandidate ''Tokyo'' None) exDB True = Inr ms \<longrightarrow>
         (filter (\<lambda>m. country m \<in> set [''FR'']) ms = [] \<longrightarrow>
            findMatches (mkCandidate ''Tokyo'' None) exDB True (Some [''FR'']) = Inr [])"
    by blast
  with exDB_scope_Tokyo[of None] flt
  have 1: "findMatches (mkCandidate ''Tokyo'' None) exDB True (Some [''FR'']) = Inr []"
    by blast
  have 2: "locations (geocodeText ''I visited Paris, France and later Tokyo.'' exDB False True
      (Some [''FR''])) = [mkCity 1 ''Paris'' ''FR'' ''11'' 2138551]"
    by code_simp
  have 3: "locations (geocodeText ''I visited Paris, France and later Tokyo.'' exDB False True
      None) = [mkCity 1 ''Paris'' ''FR'' ''11'' 2138551, mkCity 4 ''Tokyo'' ''JP'' ''40'' 8336599]"
    by code_simp
  from 1 2 3 show ?thesis by simp
qed

section \<open>The country detector\<close>

lemma distinct_map_insertSorted:
  "distinct (map f (insertSorted compare x ys)) = (f x \<notin> f ` set ys \<and> distinct (map f ys))"
  by (induction ys) (auto simp: set_insertSorted)

lemma distinct_map_arraySort: "distinct (map f (arraySort compare xs)) = distinct (map f xs)"
  by (induction xs)
    (simp_all add: arraySort_Nil arraySort_Cons distinct_map_insertSorted set_arraySort)

text \<open>A comparator that is total and transitive, read as \<open>compare a b \<le> 0\<close>, sorts.\<close>

lemma sorted_insertSorted:
  assumes total: "\<And>a b. \<not> compare a b \<le> 0 \<Longrightarrow> compare b a \<le> (0::int)"
    and trans: "\<And>a b c. compare a b \<le> 0 \<Longrightarrow> compare b c \<le> 0 \<Longrightarrow> compare a c \<le> 0"
    and srt: "sorted_wrt (\<lambda>a b. compare a b \<le> 0) ys"
  shows "sorted_wrt (\<lambda>a b. compare a b \<le> 0) (insertSorted compare x ys)"
  using srt
proof (induction ys)
  case Nil
  show ?case by simp
next
  case (Cons y ys)
  show ?case
  proof (cases "compare x y \<le> 0")
    case True
    have "\<forall>z \<in> set ys. compare x z \<le> 0"
      using Cons.prems True trans by auto
    with True Cons.prems show ?thesis by simp
  next
    case False
    then have "compare y x \<le> 0" by (rule total)
    with False Cons show ?thesis by (auto simp: set_insertSorted)
  qed
qed

lemma sorted_arraySort:
  assumes "\<And>a b. \<not> compare a b \<le> 0 \<Longrightarrow> compare b a \<le> (0::int)"
    and "\<And>a b c. compare a b \<le> 0 \<Longrightarrow> compare b c \<le> 0 \<Longrightarrow> compare a c \<le> 0"
  shows "sorted_wrt (\<lambda>a b. compare a b \<le> 0) (arraySort compare xs)"
proof (induction xs)
  case Nil
  show ?case by (simp add: arraySort_Nil)
next
  case (Cons x xs)
  from sorted_insertSorted[of compare "arraySort compare xs" x, OF assms Cons]
  show ?case by (simp add: arraySort_Cons)
qed

lemma compareCounts_le:
  "(compareCounts a b \<le> 0) = (snd b < snd a \<or> (snd a = snd b \<and> fst a \<le> fst b))"
  by (auto simp: compareCounts_def localeCompare_def)

lemma sorted_compareCounts:
  "sorted_wrt (\<lambda>a b. snd b < snd a \<or> (snd a = snd b \<and> fst a \<le> fst b))
     (arraySort compareCounts xs)"
proof -
  have "sorted_wrt (\<lambda>a b. compareCounts a b \<le> 0) (arraySort compareCounts xs)"
  proof (rule sorted_arraySort)
    fix a b :: "string \<times> nat"
    assume "\<not> compareCounts a b \<le> 0"
    then show "compareCounts b a \<le> 0" by (auto simp: compareCounts_le)
  next
    fix a b c :: "string \<times> nat"
    assume "compareCounts a b \<le> 0" "compareCounts b c \<le> 0"
    then show "compareCounts a c \<le> 0" by (auto simp: compareCounts_le)
  qed
  then show ?thesis by (simp add: compareCounts_le)
qed

lemma sorted_wrt_distinct_strict:
  "sorted_wrt P xs \<Longrightarrow> distinct (map f xs) \<Longrightarrow> sorted_wrt (\<lambda>a b. P a b \<and> f a \<noteq> f b) xs"
  by (induction xs) auto

lemma distinct_mapSet: "distinct (map fst cc) \<Longrightarrow> distinct (map fst (mapSet k v cc))"
proof (induction cc)
  case Nil
  show ?case by simp
next
  case (Cons e es)
  have "fst ` set (mapSet k v es) \<subseteq> insert k (fst ` set es)"
    by (induction es) auto
  with Cons show ?case by auto
qed

lemma map_of_mapSet: "map_of (mapSet k v cc) = (map_of cc)(k \<mapsto> v)"
  by (induction cc) (auto simp: fun_eq_iff)

lemma countsOf_step:
  assumes "countsOf cc hits"
  shows "countsOf (mapSet k (mapGetOr0 cc k + 1) cc) (hits @ [k])"
proof -
  from assms have d: "distinct (map fst cc)"
    and m: "\<And>j. map_of cc j = (if j \<in> set hits then Some (count_list hits j) else None)"
    by (simp_all add: countsOf_def)
  have g: "mapGetOr0 cc k = count_list hits k"
    by (simp add: mapGetOr0_def m)
  show ?thesis
    unfolding countsOf_def
    by (simp add: distinct_mapSet[OF d] map_of_mapSet g m)
qed

lemma countsOf_countMatches:
  "countsOf cc hits \<Longrightarrow>
     countsOf (countMatches ms cc) (hits @ filter (\<lambda>k. k \<noteq> []) (map country ms))"
proof (induction ms arbitrary: cc hits)
  case Nil
  then show ?case by simp
next
  case (Cons m ms)
  show ?case
  proof (cases "country m = []")
    case True
    with Cons.IH[OF Cons.prems] show ?thesis by simp
  next
    case False
    from Cons.IH[OF countsOf_step[OF Cons.prems, of "country m"]] False
    show ?thesis by simp
  qed
qed

lemma countsOf_countCandidates:
  "countsOf cc hits \<Longrightarrow> countsOf (countCandidates db cands cc) (hits @ countedCodes db cands)"
proof (induction cands arbitrary: cc hits)
  case Nil
  then show ?case by (simp add: countedCodes_def)
next
  case (Cons c cands)
  show ?case
  proof (cases "searchByName db (cand_name c)")
    case (Inl e)
    with Cons.IH[OF Cons.prems] show ?thesis by (simp add: countedCodes_def)
  next
    case (Inr ms)
    from Cons.IH[OF countsOf_countMatches[OF Cons.prems, of ms]] Inr
    show ?thesis by (simp add: countedCodes_def)
  qed
qed

lemma countsOf_entries:
  assumes "countsOf cc hits"
  shows "fst ` set cc = set hits" and "\<forall>e \<in> set cc. snd e = count_list hits (fst e)"
proof -
  from assms have d: "distinct (map fst cc)"
    and m: "\<And>j. map_of cc j = (if j \<in> set hits then Some (count_list hits j) else None)"
    by (simp_all add: countsOf_def)
  have "fst ` set cc = dom (map_of cc)" by (simp add: dom_map_of_conv_image_fst)
  also have "\<dots> = set hits" by (auto simp: dom_def m)
  finally show "fst ` set cc = set hits" .
  show "\<forall>e \<in> set cc. snd e = count_list hits (fst e)"
  proof
    fix e assume "e \<in> set cc"
    then have "map_of cc (fst e) = Some (snd e)" using d by simp
    then show "snd e = count_list hits (fst e)" by (simp add: m split: if_splits)
  qed
qed

lemma countCandidates_counts: "countsOf (countCandidates db cands []) (countedCodes db cands)"
  using countsOf_countCandidates[of "[]" "[]" db cands] by (simp add: countsOf_def)


text \<open>The entries of the frequency map after sorting: what the detector truncates.\<close>

lemma sortedCounts:
  fixes db cands
  defines "entries \<equiv> arraySort compareCounts (countCandidates db cands [])"
  shows "distinct (map fst entries)"
    and "fst ` set entries = set (countedCodes db cands)"
    and "\<forall>e \<in> set entries. snd e = count_list (countedCodes db cands) (fst e)"
    and "sorted_wrt (\<lambda>a b. snd b < snd a \<or> (snd a = snd b \<and> fst a < fst b)) entries"
proof -
  note inv = countCandidates_counts[of db cands]
  show d: "distinct (map fst entries)"
    using inv by (simp add: entries_def distinct_map_arraySort countsOf_def)
  show "fst ` set entries = set (countedCodes db cands)"
    using countsOf_entries(1)[OF inv] by (simp add: entries_def set_arraySort)
  show "\<forall>e \<in> set entries. snd e = count_list (countedCodes db cands) (fst e)"
    using countsOf_entries(2)[OF inv] by (simp add: entries_def set_arraySort)
  have "sorted_wrt (\<lambda>a b. (snd b < snd a \<or> (snd a = snd b \<and> fst a \<le> fst b)) \<and> fst a \<noteq> fst b)
          entries"
    using sorted_wrt_distinct_strict[OF sorted_compareCounts d[unfolded entries_def]]
    by (simp add: entries_def)
  then show "sorted_wrt (\<lambda>a b. snd b < snd a \<or> (snd a = snd b \<and> fst a < fst b)) entries"
    by (rule sorted_wrt_mono_rel[rotated]) auto
qed



lemma geocodeText_detectionOnly:
  "extractCandidates text @ extractCapitalizedWords text \<noteq> [] \<Longrightarrow>
     detectedCountries (geocodeText text db True u fc) =
       Counts (detectCountriesFromCandidates
                 (extractCandidates text @ extractCapitalizedWords text) db)"
  by (auto simp: geocodeText_def Let_def)

lemma two_element_list:
  assumes "distinct xs" and "set xs = {a, b}" and "a \<noteq> b"
  shows "xs = [a, b] \<or> xs = [b, a]"
proof -
  have "length xs = 2"
    using distinct_card[OF assms(1)] assms(2,3) by simp
  then obtain x y where xy: "xs = [x, y]"
    by (cases xs; cases "tl xs"; cases "tl (tl xs)") auto
  with assms(2) have "{x, y} = {a, b}" by simp
  then show ?thesis using xy by (auto simp: doubleton_eq_iff)
qed

text \<open>When the names Paris and Berlin resolve to one record each, in FR and in DE, and no
  other candidate resolves, the codes counted are FR once for every candidate named
  Paris and DE once for every candidate named Berlin.\<close>

lemma count_countedCodes:
  assumes "searchByName db ''Paris'' = Inr [p]" and "country p = ''FR''"
    and "searchByName db ''Berlin'' = Inr [b]" and "country b = ''DE''"
    and "\<forall>n \<in> set (map cand_name cands).
           n \<noteq> ''Paris'' \<and> n \<noteq> ''Berlin'' \<longrightarrow> searchByName db n = Inr []"
  shows "count_list (countedCodes db cands) k =
           (if k = ''FR'' then count_list (map cand_name cands) ''Paris'' else 0) +
           (if k = ''DE'' then count_list (map cand_name cands) ''Berlin'' else 0)"
  using assms(5)
proof (induction cands)
  case Nil
  show ?case by (simp add: countedCodes_def)
next
  case (Cons c cands)
  have tl: "countedCodes db (c # cands) =
      (case searchByName db (cand_name c) of
         Inl e \<Rightarrow> []
       | Inr ms \<Rightarrow> filter (\<lambda>k. k \<noteq> []) (map country ms)) @ countedCodes db cands"
    by (simp add: countedCodes_def)
  from Cons.prems have ih: "count_list (countedCodes db cands) k =
           (if k = ''FR'' then count_list (map cand_name cands) ''Paris'' else 0) +
           (if k = ''DE'' then count_list (map cand_name cands) ''Berlin'' else 0)"
    using Cons.IH by simp
  consider (paris) "cand_name c = ''Paris''" | (berlin) "cand_name c = ''Berlin''"
    | (other) "cand_name c \<noteq> ''Paris''" "cand_name c \<noteq> ''Berlin''"
    by blast
  then show ?case
  proof cases
    case paris
    then show ?thesis using ih assms(1,2) by (simp add: tl)
  next
    case berlin
    then show ?thesis using ih assms(3,4) by (simp add: tl)
  next
    case other
    with Cons.prems have "searchByName db (cand_name c) = Inr []" by simp
    then show ?thesis using ih other by (simp add: tl)
  qed
qed

text \<open>
  C5 as stated fails: in the text below Paris is mentioned three times and Berlin once,
  Paris resolves to FR and Berlin to DE in the bundled partition, and the detector
  yields DE and FR with one hit each, since \<^verbatim>\<open>extractCapitalizedWords\<close> keeps only
  the first occurrence of a word.
\<close>

theorem geocodeText_detection_counterexample:
  "searchByName exDB ''Paris'' = Inr [mkCity 1 ''Paris'' ''FR'' ''11'' 2138551] \<and>
   searchByName exDB ''Berlin'' = Inr [mkCity 3 ''Berlin'' ''DE'' ''16'' 3426354] \<and>
   detectedCountries
     (geocodeText ''Paris is big. Paris is old. Paris is far. Berlin is near.'' exDB True False
        None) = Counts [(''DE'', 1), (''FR'', 1)]"
proof -
  have "detectedCountries
     (geocodeText ''Paris is big. Paris is old. Paris is far. Berlin is near.'' exDB True False
        None) = Counts [(''DE'', 1), (''FR'', 1)]"
    by code_simp
  with exDB_searchByName_Paris exDB_searchByName_Berlin show ?thesis by simp
qed

lemma detect_paris_berlin:
  assumes "searchByName db ''Paris'' = Inr [p]" and "country p = ''FR''"
    and "searchByName db ''Berlin'' = Inr [b]" and "country b = ''DE''"
    and "\<forall>n \<in> set (map cand_name cands).
           n \<noteq> ''Paris'' \<and> n \<noteq> ''Berlin'' \<longrightarrow> searchByName db n = Inr []"
    and "count_list (map cand_name cands) ''Paris'' = 3"
    and "count_list (map cand_name cands) ''Berlin'' = 1"
  shows "detectCountriesFromCandidates cands db = [(''FR'', 3), (''DE'', 1)]"
proof -
  define hits where "hits = countedCodes db cands"
  define entries where "entries = arraySort compareCounts (countCandidates db cands [])"
  have cnt: "count_list hits k = (if k = ''FR'' then 3 else 0) + (if k = ''DE'' then 1 else 0)"
    for k
    using count_countedCodes[OF assms(1-5), of k] assms(6,7) by (simp add: hits_def)
  have fr: "count_list hits ''FR'' = 3" and de: "count_list hits ''DE'' = 1"
    using cnt[of "''FR''"] cnt[of "''DE''"] by simp_all
  have mem: "(k \<in> set hits) = (k = ''FR'' \<or> k = ''DE'')" for k
    using cnt[of k] count_list_0_iff[of hits k] by (cases "k = ''FR''"; cases "k = ''DE''") simp_all
  note e = sortedCounts[of db cands, folded entries_def hits_def]
  have dist: "distinct entries"
    using e(1) by (simp add: distinct_map)
  have sub: "x = (''FR'', 3) \<or> x = (''DE'', 1)" if x: "x \<in> set entries" for x
  proof -
    have "fst x \<in> set hits" using e(2) x by blast
    then have k: "fst x = ''FR'' \<or> fst x = ''DE''" by (simp add: mem)
    have "snd x = count_list hits (fst x)" using e(3) x by blast
    with k fr de show ?thesis by (cases x) auto
  qed
  have inFR: "(''FR'', 3) \<in> set entries"
  proof -
    have "''FR'' \<in> fst ` set entries" using e(2) by (simp add: mem)
    then obtain x where x: "x \<in> set entries" "fst x = ''FR''" by auto
    with sub[OF x(1)] show ?thesis by auto
  qed
  have inDE: "(''DE'', 1) \<in> set entries"
  proof -
    have "''DE'' \<in> fst ` set entries" using e(2) by (simp add: mem)
    then obtain x where x: "x \<in> set entries" "fst x = ''DE''" by auto
    with sub[OF x(1)] show ?thesis by auto
  qed
  have elems: "set entries = {(''FR'', 3), (''DE'', 1)}"
    using sub inFR inDE by blast
  have neq: "(''FR'', 3::nat) \<noteq> (''DE'', 1)" by simp
  from two_element_list[OF dist elems neq]
  have "entries = [(''FR'', 3), (''DE'', 1)] \<or> entries = [(''DE'', 1), (''FR'', 3)]" .
  moreover have "entries \<noteq> [(''DE'', 1), (''FR'', 3)]"
  proof
    assume "entries = [(''DE'', 1), (''FR'', 3)]"
    with e(4) have "sorted_wrt (\<lambda>a b. snd b < snd a \<or> (snd a = snd b \<and> fst a < fst b))
        [(''DE'', 1::nat), (''FR'', 3)]"
      by simp
    then show False by simp
  qed
  ultimately have "entries = [(''FR'', 3), (''DE'', 1)]" by blast
  then show ?thesis by (simp add: detectCountriesFromCandidates_def entries_def)
qed

text \<open>
  C5, amended. On an input text from which the two extraction passes together yield
  three candidates named Paris and one named Berlin, where Paris resolves to one record
  in FR and Berlin to one record in DE in the bundled partition and no other candidate
  resolves, candidate extraction followed by detection yields
  \<^verbatim>\<open>[{code:'FR',count:3},{code:'DE',count:1}]\<close>.
\<close>

theorem geocodeText_detection_paris_berlin:
  assumes "searchByName db ''Paris'' = Inr [p]" and "country p = ''FR''"
    and "searchByName db ''Berlin'' = Inr [b]" and "country b = ''DE''"
    and "\<forall>n \<in> set (map cand_name (extractCandidates text @ extractCapitalizedWords text)).
           n \<noteq> ''Paris'' \<and> n \<noteq> ''Berlin'' \<longrightarrow> searchByName db n = Inr []"
    and "count_list (map cand_name (extractCandidates text @ extractCapitalizedWords text))
           ''Paris'' = 3"
    and "count_list (map cand_name (extractCandidates text @ extractCapitalizedWords text))
           ''Berlin'' = 1"
  shows "detectedCountries (geocodeText text db True useCountryDataOnly filterCountries) =
           Counts [(''FR'', 3), (''DE'', 1)]"
proof -
  have "extractCandidates text @ extractCapitalizedWords text \<noteq> []"
    using assms(7) by auto
  from geocodeText_detectionOnly[OF this] detect_paris_berlin[OF assms]
  show ?thesis by simp
qed

theorem geocodeText_detection_paris_berlin_witness:
  "map cand_name
     (extractCandidates ''Paris, France. Paris, France. Paris. Berlin.'' @
      extractCapitalizedWords ''Paris, France. Paris, France. Paris. Berlin.'') =
     [''Paris'', ''Paris'', ''Paris'', ''France'', ''Berlin''] \<and>
   detectedCountries
     (geocodeText ''Paris, France. Paris, France. Paris. Berlin.'' exDB True False None) =
     Counts [(''FR'', 3), (''DE'', 1)]"
proof -
  let ?T = "''Paris, France. Paris, France. Paris. Berlin.''"
  have names: "map cand_name (extractCandidates ?T @ extractCapitalizedWords ?T) =
     [''Paris'', ''Paris'', ''Paris'', ''France'', ''Berlin'']"
    by code_simp
  have france: "searchByName exDB ''France'' = Inr []"
    by (simp add: searchByName_def exDB_def index_getAll_def mkCity_def lower_defs)
  have others: "\<forall>n \<in> set (map cand_name (extractCandidates ?T @ extractCapitalizedWords ?T)).
           n \<noteq> ''Paris'' \<and> n \<noteq> ''Berlin'' \<longrightarrow> searchByName exDB n = Inr []"
    unfolding names using france by simp
  have c3: "count_list (map cand_name (extractCandidates ?T @ extractCapitalizedWords ?T))
      ''Paris'' = 3"
    unfolding names by simp
  have c1: "count_list (map cand_name (extractCandidates ?T @ extractCapitalizedWords ?T))
      ''Berlin'' = 1"
    unfolding names by simp
  have fr: "country (mkCity 1 ''Paris'' ''FR'' ''11'' 2138551) = ''FR''"
    by (simp add: mkCity_def)
  have de: "country (mkCity 3 ''Berlin'' ''DE'' ''16'' 3426354) = ''DE''"
    by (simp add: mkCity_def)
  have d: "detectedCountries (geocodeText ?T exDB True False None) =
      Counts [(''FR'', 3), (''DE'', 1)]"
    by (rule geocodeText_detection_paris_berlin[OF exDB_searchByName_Paris fr
          exDB_searchByName_Berlin de others c3 c1])
  from names d show ?thesis by (rule conjI)
qed

section \<open>Lookup keys\<close>

text \<open>
  C9 as stated fails: for the name \<^verbatim>\<open>'New  York'\<close>, written with two spaces, the
  normalised form is \<^verbatim>\<open>'new york'\<close>, and the bundled partition holds a record with
  that asciiName, but \<^verbatim>\<open>searchByName\<close> looks up \<^verbatim>\<open>'new  york'\<close> and returns
  nothing.
\<close>

theorem searchByName_counterexample:
  "normalizeText ''New  York'' = ''new york'' \<and>
   index_getAll ascii (normalizeText ''New  York'') (cities newYorkDB) =
     [mkCity 20 ''New York'' ''US'' ''NY'' 8175133] \<and>
   searchByName newYorkDB ''New  York'' = Inr []"
proof -
  have 1: "normalizeText ''New  York'' = ''new york''" by code_simp
  have 2: "index_getAll ascii ''new york'' (cities newYorkDB) =
     [mkCity 20 ''New York'' ''US'' ''NY'' 8175133]"
    by (simp add: index_getAll_def newYorkDB_def mkCity_def lower_defs)
  have 3: "searchByName newYorkDB ''New  York'' = Inr []"
    by (simp add: searchByName_def index_getAll_def newYorkDB_def mkCity_def lower_defs)
  from 1 2 3 show ?thesis by simp
qed

text \<open>
  C9, amended. On an initialised store \<^verbatim>\<open>searchByName(name)\<close> performs an exact
  match of the lower-cased name against the asciiName index of the bundled partition: it
  returns exactly the records of the partition, in the order of their ids in the store,
  whose asciiName equals \<^verbatim>\<open>name.toLowerCase()\<close>. Diacritics are not stripped and
  white space is not collapsed; for a name whose normalised form is its lower-cased form
  these are the records whose asciiName equals the normalised form.
\<close>

theorem searchByName_lowercase:
  assumes "isReady db"
  shows "searchByName db nm = Inr (filter (\<lambda>r. ascii r = toLowerCase nm) (cities db)) \<and>
         (normalizeText nm = toLowerCase nm \<longrightarrow>
            searchByName db nm = Inr (filter (\<lambda>r. ascii r = normalizeText nm) (cities db)))"
  using assms by (simp add: searchByName_def index_getAll_def)

theorem searchByName_lowercase_witness:
  "isReady newYorkDB \<and>
   searchByName newYorkDB ''New York'' = Inr [mkCity 20 ''New York'' ''US'' ''NY'' 8175133] \<and>
   normalizeText ''New York'' = toLowerCase ''New York''"
proof -
  have r: "isReady newYorkDB" by (simp add: newYorkDB_def)
  have n: "normalizeText ''New York'' = toLowerCase ''New York''" by code_simp
  have f: "filter (\<lambda>r. ascii r = normalizeText ''New York'') (cities newYorkDB) =
     [mkCity 20 ''New York'' ''US'' ''NY'' 8175133]"
    unfolding n by (simp add: newYorkDB_def mkCity_def lower_defs)
  from searchByName_lowercase[OF r, of "''New York''"] n f r show ?thesis by simp
qed

section \<open>Where a match of the capitalised-word pattern ends\<close>

lemma rmatch_Seq_iff:
  "(z \<in> set (rmatch (Seq a b) s x)) = (\<exists>y \<in> set (rmatch a s x). z \<in> set (rmatch b s y))"
  by auto

text \<open>If every single repetition ends in a state with property \<open>Q\<close>, so does every
  result of the quantifier other than the state it started from.\<close>

lemma repeat_ends_aux:
  "(\<forall>x y. y \<in> set (m x) \<longrightarrow> Q y) \<Longrightarrow>
     \<forall>z \<in> set (repeatMatcher m len mn mx x). z = x \<or> Q z"
  "(\<forall>x y. y \<in> set (m x) \<longrightarrow> Q y) \<Longrightarrow> (\<forall>y \<in> set ys. Q y) \<Longrightarrow>
     \<forall>z \<in> set (repeatEach m len mn mx x ys). Q z"
proof (induction m len mn mx x and m len mn mx x ys rule: repeatMatcher_repeatEach.induct)
  case (1 m len mn mx x)
  show ?case
  proof (cases "mx = Some 0")
    case True
    then show ?thesis by (simp add: repeatMatcher.simps)
  next
    case False
    from "1.prems" have "\<forall>y \<in> set (m x). Q y" by blast
    from "1.IH"[OF False "1.prems" this] False show ?thesis
      by (auto simp: repeatMatcher.simps[of m len mn mx x])
  qed
next
  case (2 m len mn mx x)
  show ?case by simp
next
  case (3 m len mn mx x y ys)
  from "3.prems"(2) have y: "Q y" and ys: "\<forall>y \<in> set ys. Q y" by simp_all
  have tl: "\<forall>z \<in> set (repeatEach m len mn mx x ys). Q z"
    using "3.IH"(2)[OF "3.prems"(1) ys] .
  show ?case
  proof (cases "mn = 0 \<and> \<not> (fst x < fst y \<and> fst y \<le> len)")
    case True
    with tl show ?thesis by simp
  next
    case False
    from "3.IH"(1)[OF False "3.prems"(1)] y
    have "\<forall>z \<in> set (repeatMatcher m len (mn - 1) (map_option (\<lambda>k. k - 1) mx) y). Q z"
      by auto
    with tl False show ?thesis by auto
  qed
qed

lemma repeat_ends:
  assumes "\<And>x y. y \<in> set (m x) \<Longrightarrow> Q y"
    and "z \<in> set (repeatMatcher m len mn mx x)"
  shows "z = x \<or> Q z"
  using repeat_ends_aux(1)[of m Q len mn mx x] assms by blast

text \<open>A quantifier that demands at least one repetition, \<^verbatim>\<open>+\<close>, does not return the
  state it started from.\<close>

lemma plus_ends:
  assumes m: "\<And>x y. y \<in> set (m x) \<Longrightarrow> Q y"
    and z: "z \<in> set (repeatMatcher m len (Suc 0) None x)"
  shows "Q z"
proof -
  have "\<forall>y \<in> set (m x). Q y" using m by blast
  with repeat_ends_aux(2)[of m Q "m x" len "Suc 0" None x] m
  have "\<forall>z \<in> set (repeatEach m len (Suc 0) None x (m x)). Q z" by blast
  with z show ?thesis by (simp add: repeatMatcher.simps[of m len "Suc 0" None x])
qed

lemma rmatch_Group_fst:
  "z \<in> set (rmatch (Group a) s x) \<Longrightarrow> \<exists>w \<in> set (rmatch a s x). fst z = fst w"
proof -
  assume "z \<in> set (rmatch (Group a) s x)"
  then obtain w where "w \<in> set (rmatch a s x)" "z = (fst w, snd w @ [(fst x, fst w)])"
    by auto
  then show ?thesis by (intro bexI[of _ w]) simp_all
qed

lemma rmatch_WordBoundary:
  "z \<in> set (rmatch WordBoundary s x) \<Longrightarrow> z = x \<and> isWordBoundary s (fst x)"
  by (cases "isWordBoundary s (fst x)") simp_all

lemma lowerClass_ends: "y \<in> set (rmatch (Class isLower) s x) \<Longrightarrow> endsLower s y"
  by (cases "fst x < length s \<and> isLower (s ! fst x)") (auto simp: endsLower_def)

lemma capitalizedToken_ends:
  assumes "y \<in> set (rmatch capitalizedToken s x)"
  shows "endsLower s y"
proof -
  from assms obtain u where
    "y \<in> set (rmatch (Repeat (Class isLower) 1 None) s u)"
    unfolding capitalizedToken_def rmatch_Seq_iff by blast
  then have "y \<in> set (repeatMatcher (rmatch (Class isLower) s) (length s) (Suc 0) None u)"
    by simp
  from plus_ends[where m = "rmatch (Class isLower) s" and Q = "endsLower s",
      OF lowerClass_ends this]
  show ?thesis .
qed

lemma capitalizedWords_ends:
  assumes "y \<in> set (rmatch
      (Seq capitalizedToken
        (Repeat (Seq (Repeat (Class isSpace) 1 None) capitalizedToken) 0 (Some 2))) s x)"
  shows "endsLower s y"
proof -
  let ?more = "Seq (Repeat (Class isSpace) 1 None) capitalizedToken"
  from assms obtain u where u: "u \<in> set (rmatch capitalizedToken s x)"
    and "y \<in> set (rmatch (Repeat ?more 0 (Some 2)) s u)"
    unfolding rmatch_Seq_iff by blast
  then have y: "y \<in> set (repeatMatcher (rmatch ?more s) (length s) 0 (Some 2) u)"
    by (simp del: rmatch.simps(3))
  have more: "endsLower s w" if "w \<in> set (rmatch ?more s v)" for v w
  proof -
    from that obtain t where "w \<in> set (rmatch capitalizedToken s t)"
      unfolding rmatch_Seq_iff by blast
    then show ?thesis by (rule capitalizedToken_ends)
  qed
  from repeat_ends[of "rmatch ?more s" "endsLower s", OF more y]
  have "y = u \<or> endsLower s y" .
  with capitalizedToken_ends[OF u] show ?thesis by auto
qed

lemma pattern2_match_ends:
  assumes "y \<in> set (rmatch pattern2 s x)"
  shows "endsLower s y" and "isWordBoundary s (fst y)"
proof -
  let ?g = "Seq capitalizedToken
        (Repeat (Seq (Repeat (Class isSpace) 1 None) capitalizedToken) 0 (Some 2))"
  from assms obtain x1 y1 where
    y1: "y1 \<in> set (rmatch (Group ?g) s x1)" and yb: "y \<in> set (rmatch WordBoundary s y1)"
    unfolding pattern2_def rmatch_Seq_iff by blast
  from rmatch_WordBoundary[OF yb] have eq: "y = y1" and b: "isWordBoundary s (fst y1)"
    by simp_all
  from rmatch_Group_fst[OF y1] obtain w where w: "w \<in> set (rmatch ?g s x1)" "fst y1 = fst w"
    by blast
  from capitalizedWords_ends[OF w(1)] w(2) have "endsLower s y1"
    by (simp add: endsLower_def)
  with eq b show "endsLower s y" and "isWordBoundary s (fst y)" by simp_all
qed

lemma isLower_isWordChar: "isLower c \<Longrightarrow> isWordChar c"
  by (simp add: isLower_def isWordChar_def)

text \<open>No match of the pattern is followed by a lower-case letter.\<close>

lemma pattern2_not_followed_by_lower:
  assumes "y \<in> set (rmatch pattern2 s x)"
  shows "\<not> (fst y < length s \<and> isLower (s ! fst y))"
proof
  assume a: "fst y < length s \<and> isLower (s ! fst y)"
  from pattern2_match_ends[OF assms] have e: "endsLower s y" and b: "isWordBoundary s (fst y)" .
  from e have "wordCharAt s (int (fst y) - 1)"
    by (auto simp: endsLower_def wordCharAt_def nat_diff_distrib' isLower_isWordChar)
  moreover from a have "wordCharAt s (int (fst y))"
    by (simp add: wordCharAt_def isLower_isWordChar)
  ultimately show False using b by (simp add: isWordBoundary_def)
qed

lemma substring_length: "i \<le> e \<Longrightarrow> e \<le> length s \<Longrightarrow> length (substring s i e) = e - i"
  by (auto simp: substring_def Let_def min_def max_def)

lemma pattern2_exec_not_lowercaseAfter:
  assumes "regexExec pattern2 s li = Some (i, y)"
  shows "\<not> lowercaseAfter s i y"
proof -
  from regexExec_Some[OF assms] have y: "y \<in> set (rmatch pattern2 s (i, []))" by simp
  from rmatch_advances[OF advances_pattern2 y] have lt: "i < fst y" by simp
  from pattern2_match_ends(1)[OF y] have le: "fst y \<le> length s" by (simp add: endsLower_def)
  have "i + length (substring s i (fst y)) = fst y"
    using lt le by (simp add: substring_length)
  with pattern2_not_followed_by_lower[OF y] show ?thesis
    by (simp add: lowercaseAfter_def Let_def)
qed

lemma extractCapitalizedWords_loop_eq:
  "extractCapitalizedWords_loop tx lastIndex seen candidates =
     extractCapitalizedWords_loop_noNextChar tx lastIndex seen candidates"
proof (induction tx lastIndex seen candidates rule: extractCapitalizedWords_loop.induct)
  case (1 tx lastIndex seen candidates)
  show ?case
  proof (cases "regexExec pattern2 tx lastIndex")
    case None
    then show ?thesis
      by (simp add: extractCapitalizedWords_loop.simps[of tx lastIndex]
          extractCapitalizedWords_loop_noNextChar.simps[of tx lastIndex])
  next
    case (Some m)
    obtain i y where m: "m = (i, y)" by (cases m)
    from Some m have ex: "regexExec pattern2 tx lastIndex = Some (i, y)" by simp
    have nl: "\<not> lowercaseAfter tx i y"
      using pattern2_exec_not_lowercaseAfter[OF ex] .
    show ?thesis
      using "1.IH"[OF ex refl refl] nl
      by (simp add: extractCapitalizedWords_loop.simps[of tx lastIndex]
          extractCapitalizedWords_loop_noNextChar.simps[of tx lastIndex] ex Let_def)
  qed
qed

text \<open>
  C10. For every text, no match of the capitalised-word pattern, from any start index,
  is followed by a lower-case ASCII letter: the match ends behind a lower-case letter
  and at a word boundary. So for every match that \<^verbatim>\<open>exec\<close> reports to the loop of
  \<^verbatim>\<open>extractCapitalizedWords\<close> the test on the next character is false, the branch
  that skips the match is never taken, and the loop without that branch returns the same
  candidates.
\<close>

theorem nextChar_branch_never_taken:
  "(\<forall>i caps y. y \<in> set (rmatch pattern2 text (i, caps)) \<longrightarrow>
      \<not> (fst y < length text \<and> isLower (text ! fst y))) \<and>
   (\<forall>lastIndex i y. regexExec pattern2 text lastIndex = Some (i, y) \<longrightarrow>
      \<not> lowercaseAfter text i y) \<and>
   extractCapitalizedWords text = extractCapitalizedWords_noNextChar text"
  using pattern2_not_followed_by_lower[of _ "text"] pattern2_exec_not_lowercaseAfter[of "text"]
    extractCapitalizedWords_loop_eq[of "text" 0 "{}" "[]"]
  by (simp add: extractCapitalizedWords_def extractCapitalizedWords_noNextChar_def)

theorem nextChar_branch_never_taken_witness:
  "regexExec pattern2 ''Parisian life in Paris'' 0 = Some (0, 8, [(0, 8)]) \<and>
   \<not> lowercaseAfter ''Parisian life in Paris'' 0 (8, [(0, 8)]) \<and>
   map cand_name (extractCapitalizedWords ''Parisian life in Paris'') = [''Parisian'', ''Paris''] \<and>
   map cand_name (extractCapitalizedWords_noNextChar ''Parisian life in Paris'') =
     [''Parisian'', ''Paris'']"
proof -
  let ?T = "''Parisian life in Paris''"
  have ex: "regexExec pattern2 ?T 0 = Some (0, 8, [(0, 8)])" by code_simp
  have names: "map cand_name (extractCapitalizedWords ?T) = [''Parisian'', ''Paris'']"
    by code_simp
  from nextChar_branch_never_taken[of ?T]
  have 1: "\<forall>lastIndex i y. regexExec pattern2 ?T lastIndex = Some (i, y) \<longrightarrow>
      \<not> lowercaseAfter ?T i y"
    and 2: "extractCapitalizedWords ?T = extractCapitalizedWords_noNextChar ?T"
    by blast+
  from 1 ex have 3: "\<not> lowercaseAfter ?T 0 (8, [(0, 8)])" by blast
  from ex 3 names 2 show ?thesis by simp
qed

end
